theory Spec2Isabelle
  imports Main
begin

section \<open>The blocked GEBP kernel of kernel/zarch/gemm_vec.c\<close>

text \<open>
  The kernel computes \<open>C += alpha * (A * B)\<close> for a packed block matrix \<open>A\<close>, a packed
  panel matrix \<open>B\<close> and a column-major output panel \<open>C\<close>.

  Integers.  \<open>BLASLONG\<close> values are unbounded integers in the model.  The loop counters
  and the loop conditions never leave the range of \<open>BLASLONG\<close> (a position only grows
  while it stays below the extent); every other integer expression of the file is an
  index that is added to a pointer, and there the wrap-around of the machine is modelled
  at the memory access (see \<open>address\<close> below).

  Scalars.  \<open>FLOAT\<close> is a type parameter that only has to provide \<open>0\<close> (the constant
  \<open>ZERO\<close>), \<open>+\<close> and \<open>*\<close>; theorems that need exact arithmetic ask for a semiring.  The
  comparison \<open>alpha == ZERO\<close> of line 318 is the comparison of the scalar type, which is
  not equality of values for a floating-point type (it holds of both zeros): it is a
  parameter \<open>is_ZERO\<close> of the model.
\<close>

subsection \<open>Compile-time configuration\<close>

text \<open>
  \<open>is_double\<close> is the macro \<open>DOUBLE\<close>; \<open>unroll_m\<close> and \<open>unroll_n\<close> are the values of
  the constants of the same names (lines 51-52), which the source takes from
  \<open>DGEMM_DEFAULT_UNROLL_*\<close> or \<open>SGEMM_DEFAULT_UNROLL_*\<close> of a header that is not part of
  the file.
\<close>

record config =
  is_double :: bool
  unroll_m :: int
  unroll_n :: int

text \<open>
  \<open>FLOAT\<close> is \<open>double\<close> under \<open>DOUBLE\<close> and \<open>float\<close> otherwise, and
  \<open>VLEN_FLOATS = VLEN_BYTES / sizeof(FLOAT)\<close> with \<open>VLEN_BYTES = 16\<close> (lines 122-123).
\<close>

definition sizeof_FLOAT :: "config \<Rightarrow> nat" where
  "sizeof_FLOAT cfg = (if is_double cfg then 8 else 4)"

definition VLEN_FLOATS :: "config \<Rightarrow> nat" where
  "VLEN_FLOATS cfg = 16 div sizeof_FLOAT cfg"

subsection \<open>The partition loop\<close>

text \<open>
  Both \<open>CNAME\<close> (lines 336-339) and \<open>GEBP_column_block\<close> (lines 292-296) run
  \<^verbatim>\<open>
  pos = 0;
  for (block_size = T; block_size > 0; block_size /= 2)
      for (; E - pos >= block_size; pos += block_size)
          body(block_size, pos);
  \<close>
  The model is the loop nest entered with the current \<open>block_size\<close> and \<open>pos\<close>; the body
  transforms a state.  \<open>block_size\<close> is positive wherever it is halved, so C's truncating
  division agrees with \<open>div\<close>.
\<close>

function partition_loop ::
  "(int \<Rightarrow> int \<Rightarrow> 's \<Rightarrow> 's) \<Rightarrow> int \<Rightarrow> int \<Rightarrow> int \<Rightarrow> 's \<Rightarrow> 's" where
  "partition_loop body block_size E pos s =
     (if block_size > 0 then
        (if E - pos \<ge> block_size
         then partition_loop body block_size E (pos + block_size) (body block_size pos s)
         else partition_loop body (block_size div 2) E pos s)
      else s)"
  by pat_completeness auto
termination
  by (relation "measures [\<lambda>(body, block_size, E, pos, s). nat block_size,
                          \<lambda>(body, block_size, E, pos, s). nat (E - pos)]") auto

declare partition_loop.simps [simp del]

text \<open>The blocks \<open>(first index, size)\<close> the loop hands to its body, in order.\<close>

definition partition_blocks :: "int \<Rightarrow> int \<Rightarrow> (int \<times> int) list" where
  "partition_blocks T E =
     partition_loop (\<lambda>block_size pos bl. bl @ [(pos, block_size)]) T E 0 []"

text \<open>The halving sequence \<open>T, T/2, ..., 1\<close> of the outer \<open>for\<close>.\<close>

function halving :: "int \<Rightarrow> int list" where
  "halving T = (if T > 0 then T # halving (T div 2) else [])"
  by pat_completeness auto
termination
  by (relation "measure nat") auto

declare halving.simps [simp del]

text \<open>
  A list of blocks tiles \<open>[lo, hi)\<close>: every block is non-empty and starts where the one
  before it ended, the first at \<open>lo\<close>, the last ending at \<open>hi\<close>.
\<close>

fun tiles :: "int \<Rightarrow> (int \<times> int) list \<Rightarrow> int \<Rightarrow> bool" where
  "tiles lo [] hi = (lo = hi)"
| "tiles lo ((p, b) # bl) hi = (p = lo \<and> b > 0 \<and> tiles (lo + b) bl hi)"


subsection \<open>Memory\<close>

text \<open>
  The three pointers of \<open>CNAME\<close> are \<open>restrict\<close>-qualified, so the objects behind them are
  disjoint: one store per operand, each a map from locations to scalars.
\<close>

record 'a memory =
  memA :: "int \<Rightarrow> 'a"
  memB :: "int \<Rightarrow> 'a"
  memC :: "int \<Rightarrow> 'a"

text \<open>
  A \<open>FLOAT *\<close> is an integer, counted in elements, and pointer arithmetic is integer
  arithmetic.  Addresses have 64 bits and count bytes, so the address space holds
  \<open>2^64 / sizeof(FLOAT)\<close> elements and a pointer names the location \<open>p mod\<close> that number:
  two pointers that differ by a multiple of it name the same location.  Every load and
  every store of the model goes through \<open>address\<close>.
\<close>

definition address_space :: "config \<Rightarrow> int" where
  "address_space cfg = 2 ^ 64 div int (sizeof_FLOAT cfg)"

definition address :: "config \<Rightarrow> int \<Rightarrow> int" where
  "address cfg p = p mod address_space cfg"

definition mem_load :: "config \<Rightarrow> (int \<Rightarrow> 'a) \<Rightarrow> int \<Rightarrow> 'a" where
  "mem_load cfg mem p = mem (address cfg p)"

definition mem_store :: "config \<Rightarrow> int \<Rightarrow> 'a \<Rightarrow> (int \<Rightarrow> 'a) \<Rightarrow> (int \<Rightarrow> 'a)" where
  "mem_store cfg p v mem = mem(address cfg p := v)"

subsection \<open>Vectors\<close>

text \<open>
  \<open>vector_float\<close> (line 125) holds \<open>VLEN_FLOATS\<close> scalars; the operators of the GCC vector
  extension work lane by lane and broadcast a scalar operand.
\<close>

type_synonym 'a vector_float = "'a list"

definition vec_splats :: "config \<Rightarrow> 'a \<Rightarrow> 'a vector_float" where
  "vec_splats cfg x = replicate (VLEN_FLOATS cfg) x"

definition vec_load :: "config \<Rightarrow> (int \<Rightarrow> 'a) \<Rightarrow> int \<Rightarrow> 'a vector_float" where
  "vec_load cfg mem p = map (\<lambda>l. mem_load cfg mem (p + int l)) [0..<VLEN_FLOATS cfg]"

definition vec_store :: "config \<Rightarrow> int \<Rightarrow> 'a vector_float \<Rightarrow> (int \<Rightarrow> 'a) \<Rightarrow> (int \<Rightarrow> 'a)" where
  "vec_store cfg p v mem =
     fold (\<lambda>l m. mem_store cfg (p + int l) (v ! l) m) [0..<VLEN_FLOATS cfg] mem"

definition vec_add :: "'a::plus vector_float \<Rightarrow> 'a vector_float \<Rightarrow> 'a vector_float" where
  "vec_add v w = map2 (+) v w"

definition vec_mul_scalar :: "'a::times vector_float \<Rightarrow> 'a \<Rightarrow> 'a vector_float" where
  "vec_mul_scalar v x = map (\<lambda>a. a * x) v"

definition scalar_mul_vec :: "'a::times \<Rightarrow> 'a vector_float \<Rightarrow> 'a vector_float" where
  "scalar_mul_vec x v = map (\<lambda>a. x * a) v"

subsection \<open>The vectorized micro-kernels: macro \<open>VECTOR_BLOCK\<close> (lines 137-182)\<close>

text \<open>
  The macro parameters \<open>ROWS\<close> and \<open>COLS\<close> are arguments of the model.  The local array
  \<open>Caux[ROWS / VLEN_FLOATS][COLS]\<close> is a map from index pairs to vectors; it starts with
  arbitrary contents and the first loop nest assigns every entry.  The three loop nests
  are the three folds, in the order of the source.
\<close>

definition VECTOR_BLOCK ::
  "config \<Rightarrow> nat \<Rightarrow> nat \<Rightarrow> int \<Rightarrow> int \<Rightarrow> int \<Rightarrow> int \<Rightarrow> int \<Rightarrow> 'a::{zero,plus,times} \<Rightarrow>
   'a memory \<Rightarrow> 'a memory" where
  "VECTOR_BLOCK cfg ROWS COLS A bk B C ldc alpha s =
     (let Caux0 = fold (\<lambda>i. fold (\<lambda>j Caux. Caux((i, j) := vec_splats cfg 0)) [0..<COLS])
                    [0..<ROWS div VLEN_FLOATS cfg] (\<lambda>_. []);
          Caux1 = fold (\<lambda>k. fold (\<lambda>i Caux.
                      let Ak = vec_load cfg (memA s)
                                 (A + int i * int (VLEN_FLOATS cfg) + int k * int ROWS)
                      in fold (\<lambda>j Caux. Caux((i, j) :=
                                 vec_add (Caux (i, j))
                                   (vec_mul_scalar Ak
                                      (mem_load cfg (memB s) (B + int j + int k * int COLS)))))
                           [0..<COLS] Caux)
                    [0..<ROWS div VLEN_FLOATS cfg]) [0..<nat bk] Caux0
      in fold (\<lambda>j. fold (\<lambda>i s.
                 let C_ij = C + int i * int (VLEN_FLOATS cfg) + int j * ldc
                 in s\<lparr>memC := vec_store cfg C_ij
                      (vec_add (vec_load cfg (memC s) C_ij) (scalar_mul_vec alpha (Caux1 (i, j))))
                      (memC s)\<rparr>)
               [0..<ROWS div VLEN_FLOATS cfg]) [0..<COLS] s)"

text \<open>The instances of lines 185-195; the last two exist only under \<open>DOUBLE\<close>.\<close>

definition GEBP_block_8_4 ::
  "config \<Rightarrow> int \<Rightarrow> int \<Rightarrow> int \<Rightarrow> int \<Rightarrow> int \<Rightarrow> 'a::{zero,plus,times} \<Rightarrow> 'a memory \<Rightarrow> 'a memory" where
  "GEBP_block_8_4 cfg = VECTOR_BLOCK cfg 8 4"

definition GEBP_block_8_2 ::
  "config \<Rightarrow> int \<Rightarrow> int \<Rightarrow> int \<Rightarrow> int \<Rightarrow> int \<Rightarrow> 'a::{zero,plus,times} \<Rightarrow> 'a memory \<Rightarrow> 'a memory" where
  "GEBP_block_8_2 cfg = VECTOR_BLOCK cfg 8 2"

definition GEBP_block_8_1 ::
  "config \<Rightarrow> int \<Rightarrow> int \<Rightarrow> int \<Rightarrow> int \<Rightarrow> int \<Rightarrow> 'a::{zero,plus,times} \<Rightarrow> 'a memory \<Rightarrow> 'a memory" where
  "GEBP_block_8_1 cfg = VECTOR_BLOCK cfg 8 1"

definition GEBP_block_4_4 ::
  "config \<Rightarrow> int \<Rightarrow> int \<Rightarrow> int \<Rightarrow> int \<Rightarrow> int \<Rightarrow> 'a::{zero,plus,times} \<Rightarrow> 'a memory \<Rightarrow> 'a memory" where
  "GEBP_block_4_4 cfg = VECTOR_BLOCK cfg 4 4"

definition GEBP_block_4_2 ::
  "config \<Rightarrow> int \<Rightarrow> int \<Rightarrow> int \<Rightarrow> int \<Rightarrow> int \<Rightarrow> 'a::{zero,plus,times} \<Rightarrow> 'a memory \<Rightarrow> 'a memory" where
  "GEBP_block_4_2 cfg = VECTOR_BLOCK cfg 4 2"

definition GEBP_block_4_1 ::
  "config \<Rightarrow> int \<Rightarrow> int \<Rightarrow> int \<Rightarrow> int \<Rightarrow> int \<Rightarrow> 'a::{zero,plus,times} \<Rightarrow> 'a memory \<Rightarrow> 'a memory" where
  "GEBP_block_4_1 cfg = VECTOR_BLOCK cfg 4 1"

definition GEBP_block_2_4 ::
  "config \<Rightarrow> int \<Rightarrow> int \<Rightarrow> int \<Rightarrow> int \<Rightarrow> int \<Rightarrow> 'a::{zero,plus,times} \<Rightarrow> 'a memory \<Rightarrow> 'a memory" where
  "GEBP_block_2_4 cfg = VECTOR_BLOCK cfg 2 4"

definition GEBP_block_2_2 ::
  "config \<Rightarrow> int \<Rightarrow> int \<Rightarrow> int \<Rightarrow> int \<Rightarrow> int \<Rightarrow> 'a::{zero,plus,times} \<Rightarrow> 'a memory \<Rightarrow> 'a memory" where
  "GEBP_block_2_2 cfg = VECTOR_BLOCK cfg 2 2"

subsection \<open>The row-block kernel \<open>GEBP_block\<close> (lines 213-257)\<close>

text \<open>
  The generic implementation at the end of \<open>GEBP_block\<close> (lines 239-256), entered with
  the pointers \<open>A\<close> and \<open>C\<close> already advanced.  The first reduction step is peeled off
  and runs whatever \<open>k\<close> is; the remaining steps are \<open>kk = 1, ..., k - 1\<close>.  The local
  array \<open>Caux[m][n]\<close> is a map from index pairs to scalars, and the peeled step assigns
  every entry before it is read.  \<open>GEBP_column_block\<close> calls with \<open>m \<ge> 1\<close> and \<open>n \<ge> 1\<close> only.
\<close>

definition GEBP_block_generic ::
  "config \<Rightarrow> int \<Rightarrow> int \<Rightarrow> int \<Rightarrow> int \<Rightarrow> int \<Rightarrow> int \<Rightarrow> int \<Rightarrow> 'a::{zero,plus,times} \<Rightarrow>
   'a memory \<Rightarrow> 'a memory" where
  "GEBP_block_generic cfg m n A k B C ldc alpha s =
     (let Caux0 = fold (\<lambda>i. fold (\<lambda>j Caux. Caux((i, j) :=
                      mem_load cfg (memA s) (A + int i) * mem_load cfg (memB s) (B + int j)))
                      [0..<nat n])
                    [0..<nat m] (\<lambda>_. 0);
          Caux1 = fold (\<lambda>kk. fold (\<lambda>i. fold (\<lambda>j Caux. Caux((i, j) :=
                      Caux (i, j) + mem_load cfg (memA s) (A + int i + int kk * m) *
                                    mem_load cfg (memB s) (B + int j + int kk * n)))
                      [0..<nat n]) [0..<nat m]) [1..<nat k] Caux0
      in fold (\<lambda>i. fold (\<lambda>j s. s\<lparr>memC := mem_store cfg (C + int i + int j * ldc)
                   (mem_load cfg (memC s) (C + int i + int j * ldc) + alpha * Caux1 (i, j))
                   (memC s)\<rparr>) [0..<nat n])
           [0..<nat m] s)"

text \<open>The dispatch of the \<open>BLOCK\<close> macro, in the order of lines 229-235.\<close>

definition GEBP_block ::
  "config \<Rightarrow> int \<Rightarrow> int \<Rightarrow> int \<Rightarrow> int \<Rightarrow> int \<Rightarrow> int \<Rightarrow> int \<Rightarrow> int \<Rightarrow> 'a::{zero,plus,times} \<Rightarrow>
   'a memory \<Rightarrow> 'a memory" where
  "GEBP_block cfg m n first_row A0 k B C0 ldc alpha s =
     (let A = A0 + first_row * k; C = C0 + first_row in
      if m = 8 \<and> n = 4 then GEBP_block_8_4 cfg A k B C ldc alpha s
      else if m = 8 \<and> n = 2 then GEBP_block_8_2 cfg A k B C ldc alpha s
      else if m = 8 \<and> n = 1 then GEBP_block_8_1 cfg A k B C ldc alpha s
      else if m = 4 \<and> n = 4 then GEBP_block_4_4 cfg A k B C ldc alpha s
      else if m = 4 \<and> n = 2 then GEBP_block_4_2 cfg A k B C ldc alpha s
      else if m = 4 \<and> n = 1 then GEBP_block_4_1 cfg A k B C ldc alpha s
      else if is_double cfg \<and> m = 2 \<and> n = 4 then GEBP_block_2_4 cfg A k B C ldc alpha s
      else if is_double cfg \<and> m = 2 \<and> n = 2 then GEBP_block_2_2 cfg A k B C ldc alpha s
      else GEBP_block_generic cfg m n A k B C ldc alpha s)"

subsection \<open>The column-block driver \<open>GEBP_column_block\<close> (lines 272-297)\<close>

text \<open>
  The two drivers are written with the row-block kernel they call as a parameter
  \<open>blk\<close>, which takes the arguments of \<open>GEBP_block\<close> in the order of the source and
  transforms a state.  The functions of the source are the drivers with \<open>GEBP_block\<close> for
  the kernel; with a kernel that writes down its arguments, the same drivers give the
  calls they make.
\<close>

definition GEBP_column_block_with ::
  "(int \<Rightarrow> int \<Rightarrow> int \<Rightarrow> int \<Rightarrow> int \<Rightarrow> int \<Rightarrow> int \<Rightarrow> int \<Rightarrow> 'a \<Rightarrow> 's \<Rightarrow> 's) \<Rightarrow>
   config \<Rightarrow> int \<Rightarrow> int \<Rightarrow> int \<Rightarrow> int \<Rightarrow> int \<Rightarrow> int \<Rightarrow> int \<Rightarrow> int \<Rightarrow> 'a \<Rightarrow> 's \<Rightarrow> 's" where
  "GEBP_column_block_with blk cfg num_cols first_col A bk B bm C ldc alpha s =
     (let C_i = C + first_col * ldc;
          B_i = B + first_col * bk
      in partition_loop
           (\<lambda>block_size row. blk block_size num_cols row A bk B_i C_i ldc alpha)
           (unroll_m cfg) bm 0 s)"

definition GEBP_column_block ::
  "config \<Rightarrow> int \<Rightarrow> int \<Rightarrow> int \<Rightarrow> int \<Rightarrow> int \<Rightarrow> int \<Rightarrow> int \<Rightarrow> int \<Rightarrow> 'a::{zero,plus,times} \<Rightarrow>
   'a memory \<Rightarrow> 'a memory" where
  "GEBP_column_block cfg num_cols first_col A bk B bm C ldc alpha s =
     GEBP_column_block_with (GEBP_block cfg) cfg num_cols first_col A bk B bm C ldc alpha s"

subsection \<open>The entry point \<open>CNAME\<close> (lines 314-342)\<close>

text \<open>
  The result is the returned \<open>int\<close> and the state after the call.  \<open>is_ZERO alpha\<close> is the
  test \<open>alpha == ZERO\<close>.
\<close>

definition CNAME_with ::
  "(int \<Rightarrow> int \<Rightarrow> int \<Rightarrow> int \<Rightarrow> int \<Rightarrow> int \<Rightarrow> int \<Rightarrow> int \<Rightarrow> 'a \<Rightarrow> 's \<Rightarrow> 's) \<Rightarrow> ('a \<Rightarrow> bool) \<Rightarrow>
   config \<Rightarrow> int \<Rightarrow> int \<Rightarrow> int \<Rightarrow> 'a \<Rightarrow> int \<Rightarrow> int \<Rightarrow> int \<Rightarrow> int \<Rightarrow> 's \<Rightarrow> int \<times> 's" where
  "CNAME_with blk is_ZERO cfg bm bn bk alpha ba bb C ldc s =
     (if bm = 0 \<or> bn = 0 \<or> bk = 0 \<or> is_ZERO alpha then (0, s)
      else (0, partition_loop
                 (\<lambda>block_size col.
                    GEBP_column_block_with blk cfg block_size col ba bk bb bm C ldc alpha)
                 (unroll_n cfg) bn 0 s))"

definition CNAME ::
  "('a \<Rightarrow> bool) \<Rightarrow> config \<Rightarrow> int \<Rightarrow> int \<Rightarrow> int \<Rightarrow> 'a::{zero,plus,times} \<Rightarrow> int \<Rightarrow> int \<Rightarrow> int \<Rightarrow> int \<Rightarrow>
   'a memory \<Rightarrow> int \<times> 'a memory" where
  "CNAME is_ZERO cfg bm bn bk alpha ba bb C ldc s =
     CNAME_with (GEBP_block cfg) is_ZERO cfg bm bn bk alpha ba bb C ldc s"

section \<open>Specification-side definitions\<close>

subsection \<open>The blocks of a partition\<close>

text \<open>
  The blocks the loop nest hands to its body, entered at \<open>block_size\<close> and \<open>pos\<close>, as a
  list built front to back.
\<close>

function blocks_from :: "int \<Rightarrow> int \<Rightarrow> int \<Rightarrow> (int \<times> int) list" where
  "blocks_from block_size E pos =
     (if block_size > 0 then
        (if E - pos \<ge> block_size
         then (pos, block_size) # blocks_from block_size E (pos + block_size)
         else blocks_from (block_size div 2) E pos)
      else [])"
  by pat_completeness auto
termination
  by (relation "measures [\<lambda>(block_size, E, pos). nat block_size,
                          \<lambda>(block_size, E, pos). nat (E - pos)]") auto

declare blocks_from.simps [simp del]

subsection \<open>The micro-kernel instance of a shape\<close>

text \<open>
  The instance \<open>GEBP_block_ROWS_COLS\<close> that the file defines for a shape, if it defines
  one: the six of lines 185-190 and, under \<open>DOUBLE\<close>, the two of lines 193-194.
\<close>

definition micro_kernel ::
  "config \<Rightarrow> nat \<Rightarrow> nat \<Rightarrow>
   (int \<Rightarrow> int \<Rightarrow> int \<Rightarrow> int \<Rightarrow> int \<Rightarrow> 'a::{zero,plus,times} \<Rightarrow> 'a memory \<Rightarrow> 'a memory) option" where
  "micro_kernel cfg ROWS COLS =
     (if ROWS = 8 \<and> COLS = 4 then Some (GEBP_block_8_4 cfg)
      else if ROWS = 8 \<and> COLS = 2 then Some (GEBP_block_8_2 cfg)
      else if ROWS = 8 \<and> COLS = 1 then Some (GEBP_block_8_1 cfg)
      else if ROWS = 4 \<and> COLS = 4 then Some (GEBP_block_4_4 cfg)
      else if ROWS = 4 \<and> COLS = 2 then Some (GEBP_block_4_2 cfg)
      else if ROWS = 4 \<and> COLS = 1 then Some (GEBP_block_4_1 cfg)
      else if is_double cfg \<and> ROWS = 2 \<and> COLS = 4 then Some (GEBP_block_2_4 cfg)
      else if is_double cfg \<and> ROWS = 2 \<and> COLS = 2 then Some (GEBP_block_2_2 cfg)
      else None)"

subsection \<open>The contribution of one tile\<close>

text \<open>
  For a tile of \<open>m\<close> rows and \<open>n\<close> columns whose packed operands start at \<open>A\<close> and \<open>B\<close>:
  the sum over \<open>kk\<close> in \<open>[0, k)\<close> of \<open>A[r + kk * m] * B[c + kk * n]\<close>.  \<open>Am\<close> and \<open>Bm\<close> give
  the element behind a pointer (\<open>mem_load\<close> of the store).
\<close>

definition tile_dot ::
  "(int \<Rightarrow> 'a) \<Rightarrow> (int \<Rightarrow> 'a) \<Rightarrow> int \<Rightarrow> int \<Rightarrow> int \<Rightarrow> int \<Rightarrow> int \<Rightarrow> int \<Rightarrow> int \<Rightarrow> 'a::semiring_0" where
  "tile_dot Am Bm A B m n k r c =
     (\<Sum>kk\<leftarrow>[0..<nat k]. Am (A + r + int kk * m) * Bm (B + c + int kk * n))"

text \<open>
  What a tile adds at the location \<open>x\<close> of \<open>C\<close>: the contributions of all its entries
  \<open>(r, c)\<close> that live at \<open>x\<close>.  For a stride that keeps the entries apart this is at most
  one term.
\<close>

definition tile_delta ::
  "config \<Rightarrow> (int \<Rightarrow> 'a) \<Rightarrow> (int \<Rightarrow> 'a) \<Rightarrow> 'a \<Rightarrow> int \<Rightarrow> int \<Rightarrow> int \<Rightarrow> int \<Rightarrow> nat \<Rightarrow> nat \<Rightarrow> int \<Rightarrow>
   int \<Rightarrow> 'a::semiring_0" where
  "tile_delta cfg Am Bm alpha A B C ldc m n k x =
     (\<Sum>r<m. \<Sum>c<n. if x = address cfg (C + int r + int c * ldc)
                    then alpha * tile_dot Am Bm A B (int m) (int n) k (int r) (int c) else 0)"

text \<open>A state transformer that adds \<open>d x\<close> to every \<open>C[x]\<close> and changes nothing else.\<close>

definition adds :: "('a::plus memory \<Rightarrow> 'a memory) \<Rightarrow> (int \<Rightarrow> 'a) \<Rightarrow> bool" where
  "adds t d = (\<forall>s. t s = s\<lparr>memC := \<lambda>x. memC s x + d x\<rparr>)"

subsection \<open>The packed layouts and the reference product\<close>

text \<open>
  The layout of the header comment (lines 78-87): a dimension of extent \<open>E\<close> is cut into
  full blocks of the unroll size \<open>T\<close>, and what remains into blocks of the halved sizes
  (for \<open>T\<close> a power of two: the power-of-two blocks of the comment, 5 as 4 and 1).
  \<open>packed_block T E pos i\<close> is the start and the size of the block that holds index \<open>i\<close>
  when \<open>[pos, E)\<close> is cut with sizes from \<open>T\<close> downwards; it is computed by division, not
  by running the loop.
\<close>

function packed_block :: "int \<Rightarrow> int \<Rightarrow> int \<Rightarrow> int \<Rightarrow> int \<times> int" where
  "packed_block T E pos i =
     (if T \<le> 0 then (pos, 0)
      else if i < pos + ((E - pos) div T) * T then (pos + ((i - pos) div T) * T, T)
      else packed_block (T div 2) E (pos + ((E - pos) div T) * T) i)"
  by pat_completeness auto
termination
  by (relation "measure (\<lambda>(T, E, pos, i). nat T)") auto

declare packed_block.simps [simp del]

text \<open>
  A block of size \<open>b\<close> starting at index \<open>p\<close> is stored from offset \<open>p * k\<close> on, one
  segment of \<open>b\<close> elements per reduction step: element \<open>i\<close> of step \<open>kk\<close> is at
  \<open>p * k + kk * b + (i - p)\<close>.  This is the layout of both the rows of \<open>A\<close> and the
  columns of \<open>B\<close>.
\<close>

definition packed_offset :: "int \<Rightarrow> int \<Rightarrow> int \<Rightarrow> int \<Rightarrow> int \<Rightarrow> int" where
  "packed_offset T E k i kk = (case packed_block T E 0 i of (p, b) \<Rightarrow> p * k + (i - p) + kk * b)"

text \<open>The logical matrices \<open>A\<close> (\<open>bm\<close> by \<open>bk\<close>) and \<open>B\<close> (\<open>bk\<close> by \<open>bn\<close>) behind the packed buffers.\<close>

definition A_logical :: "config \<Rightarrow> 'a memory \<Rightarrow> int \<Rightarrow> int \<Rightarrow> int \<Rightarrow> nat \<Rightarrow> nat \<Rightarrow> 'a" where
  "A_logical cfg s ba bm bk i kk =
     mem_load cfg (memA s) (ba + packed_offset (unroll_m cfg) bm bk (int i) (int kk))"

definition B_logical :: "config \<Rightarrow> 'a memory \<Rightarrow> int \<Rightarrow> int \<Rightarrow> int \<Rightarrow> nat \<Rightarrow> nat \<Rightarrow> 'a" where
  "B_logical cfg s bb bn bk kk j =
     mem_load cfg (memB s) (bb + packed_offset (unroll_n cfg) bn bk (int j) (int kk))"

text \<open>
  The naive reference: \<open>for i, for j, for kk: P[i][j] += A[i][kk] * B[kk][j]\<close>, from an
  all-zero \<open>P\<close>.
\<close>

definition naive_product ::
  "(nat \<Rightarrow> nat \<Rightarrow> 'a) \<Rightarrow> (nat \<Rightarrow> nat \<Rightarrow> 'a) \<Rightarrow> nat \<Rightarrow> nat \<Rightarrow> nat \<Rightarrow> nat \<times> nat \<Rightarrow> 'a::{zero,plus,times}" where
  "naive_product Al Bl m n k =
     fold (\<lambda>i. fold (\<lambda>j. fold (\<lambda>kk P. P((i, j) := P (i, j) + Al i kk * Bl kk j)) [0..<k])
       [0..<n]) [0..<m] (\<lambda>_. 0)"

text \<open>
  The \<open>(i, j)\<close> entry of the product of the logical matrices, read from the packed
  buffers.
\<close>

definition packed_dot ::
  "(int \<Rightarrow> 'a) \<Rightarrow> (int \<Rightarrow> 'a) \<Rightarrow> int \<Rightarrow> int \<Rightarrow> int \<Rightarrow> int \<Rightarrow> int \<Rightarrow> int \<Rightarrow> int \<Rightarrow> int \<Rightarrow> int \<Rightarrow> 'a::semiring_0" where
  "packed_dot Am Bm Tm Tn ba bb bm bn bk i j =
     (\<Sum>kk\<leftarrow>[0..<nat bk]. Am (ba + packed_offset Tm bm bk i (int kk)) *
                           Bm (bb + packed_offset Tn bn bk j (int kk)))"

text \<open>What one column block adds at the address \<open>x\<close>; \<open>B\<close> and \<open>C\<close> point at the block.\<close>

definition column_delta ::
  "config \<Rightarrow> (int \<Rightarrow> 'a) \<Rightarrow> (int \<Rightarrow> 'a) \<Rightarrow> 'a \<Rightarrow> int \<Rightarrow> int \<Rightarrow> int \<Rightarrow> int \<Rightarrow> int \<Rightarrow> int \<Rightarrow> int \<Rightarrow>
   int \<Rightarrow> int \<Rightarrow> 'a::semiring_0" where
  "column_delta cfg Am Bm alpha Tm A B C ldc bm n bk x =
     (\<Sum>i\<in>{0..<bm}. \<Sum>c\<in>{0..<n}. if x = address cfg (C + i + c * ldc)
         then alpha * (\<Sum>kk\<leftarrow>[0..<nat bk]. Am (A + packed_offset Tm bm bk i (int kk)) *
                                           Bm (B + c + int kk * n))
         else 0)"

text \<open>What the whole call adds at the address \<open>x\<close>.\<close>

definition gemm_delta ::
  "config \<Rightarrow> (int \<Rightarrow> 'a) \<Rightarrow> (int \<Rightarrow> 'a) \<Rightarrow> 'a \<Rightarrow> int \<Rightarrow> int \<Rightarrow> int \<Rightarrow> int \<Rightarrow> int \<Rightarrow> int \<Rightarrow> int \<Rightarrow>
   int \<Rightarrow> int \<Rightarrow> int \<Rightarrow> 'a::semiring_0" where
  "gemm_delta cfg Am Bm alpha Tm Tn ba bb C ldc bm bn bk x =
     (\<Sum>j\<in>{0..<bn}. \<Sum>i\<in>{0..<bm}. if x = address cfg (C + i + j * ldc)
         then alpha * packed_dot Am Bm Tm Tn ba bb bm bn bk i j else 0)"

subsection \<open>The addressed slice of \<open>C\<close>\<close>

text \<open>
  The locations of the entries \<open>C[i + j * ldc]\<close> with \<open>0 \<le> i < bm\<close> and \<open>0 \<le> j < bn\<close>.
\<close>

definition C_slice :: "config \<Rightarrow> int \<Rightarrow> int \<Rightarrow> int \<Rightarrow> int \<Rightarrow> int set" where
  "C_slice cfg C ldc bm bn =
     (\<lambda>(i, j). address cfg (C + i + j * ldc)) ` ({0..<bm} \<times> {0..<bn})"

text \<open>
  A state transformer that leaves \<open>A\<close> and \<open>B\<close> as they are and changes \<open>C\<close> at most at
  the addresses in \<open>W\<close>.
\<close>

definition writes_only :: "int set \<Rightarrow> ('a memory \<Rightarrow> 'a memory) \<Rightarrow> bool" where
  "writes_only W t =
     (\<forall>s. memA (t s) = memA s \<and> memB (t s) = memB s \<and> (\<forall>x. x \<notin> W \<longrightarrow> memC (t s) x = memC s x))"

subsection \<open>The calls of the row-block kernel\<close>

text \<open>
  The integer arguments of one call of \<open>GEBP_block\<close>, and the kernel that appends them to
  the list of the calls made so far.  \<open>GEBP_block_calls\<close> is \<open>CNAME\<close>'s own driver run
  with this kernel from the empty list: the calls of \<open>GEBP_block\<close> that a call of \<open>CNAME\<close>
  makes, in order.
\<close>

record block_call =
  call_m :: int
  call_n :: int
  call_first_row :: int
  call_A :: int
  call_k :: int
  call_B :: int
  call_C :: int
  call_ldc :: int

definition record_call ::
  "int \<Rightarrow> int \<Rightarrow> int \<Rightarrow> int \<Rightarrow> int \<Rightarrow> int \<Rightarrow> int \<Rightarrow> int \<Rightarrow> 'a \<Rightarrow> block_call list \<Rightarrow> block_call list" where
  "record_call m n first_row A k B C ldc alpha calls =
     calls @ [\<lparr>call_m = m, call_n = n, call_first_row = first_row, call_A = A, call_k = k,
               call_B = B, call_C = C, call_ldc = ldc\<rparr>]"

definition GEBP_block_calls ::
  "('a \<Rightarrow> bool) \<Rightarrow> config \<Rightarrow> int \<Rightarrow> int \<Rightarrow> int \<Rightarrow> 'a \<Rightarrow> int \<Rightarrow> int \<Rightarrow> int \<Rightarrow> int \<Rightarrow> block_call list" where
  "GEBP_block_calls is_ZERO cfg bm bn bk alpha ba bb C ldc =
     snd (CNAME_with record_call is_ZERO cfg bm bn bk alpha ba bb C ldc [])"

subsection \<open>Configurations and a memory for concrete runs\<close>

text \<open>
  Two builds with the unroll sizes 8 and 4, the largest shape that has a micro-kernel, one
  in single and one in double precision, and a memory with \<open>A[i] = i + 1\<close>,
  \<open>B[i] = 2 * i + 1\<close> and \<open>C[i] = 100 * i\<close>.  The theorems hold for every configuration;
  these serve to run the kernel on concrete inputs.
\<close>

definition sgemm_config :: config where
  "sgemm_config = \<lparr>is_double = False, unroll_m = 8, unroll_n = 4\<rparr>"

definition dgemm_config :: config where
  "dgemm_config = \<lparr>is_double = True, unroll_m = 8, unroll_n = 4\<rparr>"

definition demo_memory :: "int memory" where
  "demo_memory = \<lparr>memA = (\<lambda>i. i + 1), memB = (\<lambda>i. 2 * i + 1), memC = (\<lambda>i. 100 * i)\<rparr>"

text \<open>
  A scalar type with the special values of a floating-point type: two zeros, which the
  comparison with \<open>ZERO\<close> does not tell apart, and a NaN, which absorbs.  \<open>One + One\<close> has
  no value of its own in so small a type and is NaN as well.
\<close>

datatype special_float = PZero | NZero | One | NaN

instantiation special_float :: "{zero,plus,times}"
begin

definition zero_special_float :: special_float where
  "zero_special_float = PZero"

definition plus_special_float :: "special_float \<Rightarrow> special_float \<Rightarrow> special_float" where
  "plus_special_float a b =
     (if a = NaN \<or> b = NaN then NaN
      else if a = One \<and> b = One then NaN
      else if a = One \<or> b = One then One
      else if a = NZero \<and> b = NZero then NZero
      else PZero)"

definition times_special_float :: "special_float \<Rightarrow> special_float \<Rightarrow> special_float" where
  "times_special_float a b =
     (if a = NaN \<or> b = NaN then NaN
      else if a = One \<and> b = One then One
      else if (a = NZero) \<noteq> (b = NZero) then NZero
      else PZero)"

instance ..

end

definition is_ZERO_special :: "special_float \<Rightarrow> bool" where
  "is_ZERO_special a = (a = PZero \<or> a = NZero)"

definition special_memory :: "special_float memory" where
  "special_memory = \<lparr>memA = (\<lambda>i. NaN), memB = (\<lambda>i. NaN), memC = (\<lambda>i. One)\<rparr>"


section \<open>The partition loop\<close>

lemma blocks_from_nonpos [simp]: "T \<le> 0 \<Longrightarrow> blocks_from T E pos = []"
  by (subst blocks_from.simps) simp

lemma partition_loop_fold:
  "partition_loop body T E pos s = fold (\<lambda>(p, b). body b p) (blocks_from T E pos) s"
proof (induction body T E pos s rule: partition_loop.induct)
  case (1 body block_size E pos s)
  show ?case
    by (subst partition_loop.simps, subst blocks_from.simps) (simp add: 1)
qed

lemma fold_snoc_record: "fold (\<lambda>(p, b) bl. bl @ [(p, b)]) xs acc = acc @ xs"
  by (induction xs arbitrary: acc) auto

lemma partition_blocks_eq: "partition_blocks T E = blocks_from T E 0"
  unfolding partition_blocks_def partition_loop_fold
  using fold_snoc_record[of "blocks_from T E 0" "[]"] by (simp add: case_prod_unfold)

text \<open>Whatever its body, the loop nest runs it once on every block of \<open>partition_blocks\<close>, in order.\<close>

lemma partition_loop_runs_blocks:
  "partition_loop body T E 0 s = fold (\<lambda>(p, b). body b p) (partition_blocks T E) s"
  by (simp add: partition_loop_fold partition_blocks_eq)

lemma blocks_from_tiles:
  "T \<ge> 1 \<Longrightarrow> pos \<le> E \<Longrightarrow> tiles pos (blocks_from T E pos) E"
proof (induction T E pos rule: blocks_from.induct)
  case (1 block_size E pos)
  show ?case
  proof (cases "E - pos \<ge> block_size")
    case True
    with 1 show ?thesis by (subst blocks_from.simps) simp
  next
    case False
    show ?thesis
    proof (cases "block_size = 1")
      case True
      with False 1 show ?thesis by (subst blocks_from.simps) simp
    next
      case F2: False
      with 1 have "block_size div 2 \<ge> 1" by simp
      with False 1 show ?thesis by (subst blocks_from.simps) simp
    qed
  qed
qed

lemma tiles_sum: "tiles lo bl hi \<Longrightarrow> sum_list (map snd bl) = hi - lo"
  by (induction lo bl hi rule: tiles.induct) auto

lemma halving_mono: "0 < T \<Longrightarrow> set (halving (T div 2)) \<subseteq> set (halving T)"
  by (subst (2) halving.simps) auto

lemma halving_self: "0 < T \<Longrightarrow> T \<in> set (halving T)"
  by (subst halving.simps) auto

lemma blocks_from_sizes:
  "(p, b) \<in> set (blocks_from T E pos) \<Longrightarrow> b \<in> set (halving T)"
proof (induction T E pos rule: blocks_from.induct)
  case (1 block_size E pos)
  from "1.prems" have pos: "0 < block_size"
    by (cases "0 < block_size") simp_all
  show ?case
  proof (cases "E - pos \<ge> block_size")
    case True
    with "1.prems" pos have "(p, b) = (pos, block_size) \<or>
        (p, b) \<in> set (blocks_from block_size E (pos + block_size))"
      by (subst (asm) blocks_from.simps) simp
    with 1 pos True halving_self[of block_size] show ?thesis by auto
  next
    case False
    with "1.prems" pos have "(p, b) \<in> set (blocks_from (block_size div 2) E pos)"
      by (subst (asm) blocks_from.simps) simp
    with 1 pos False halving_mono[of block_size] show ?thesis by auto
  qed
qed

text \<open>
  C3.  For every extent \<open>E \<ge> 0\<close> and preferred tile size \<open>T \<ge> 1\<close>, the block sizes the
  partition loop consumes sum exactly to \<open>E\<close>, the blocks tile \<open>[0, E)\<close> contiguously (each
  starts where the one before it ended, so there is neither overlap nor gap), and every
  block size is a member of the halving sequence \<open>T, T/2, ..., 1\<close>.  The loop is the one
  that \<open>CNAME\<close> runs over the columns and \<open>GEBP_column_block\<close> over the rows.
\<close>

theorem partition_blocks_exact:
  assumes "T \<ge> 1" and "E \<ge> 0"
  shows "sum_list (map snd (partition_blocks T E)) = E \<and>
         tiles 0 (partition_blocks T E) E \<and>
         set (map snd (partition_blocks T E)) \<subseteq> set (halving T)"
proof -
  have t: "tiles 0 (partition_blocks T E) E"
    using blocks_from_tiles[of T 0 E] assms by (simp add: partition_blocks_eq)
  have "sum_list (map snd (partition_blocks T E)) = E"
    using tiles_sum[OF t] by simp
  moreover have "set (map snd (partition_blocks T E)) \<subseteq> set (halving T)"
    using blocks_from_sizes[of _ _ T E 0] by (auto simp: partition_blocks_eq)
  ultimately show ?thesis using t by simp
qed

theorem partition_blocks_exact_witness:
  "sum_list (map snd (partition_blocks 8 21)) = 21 \<and>
   tiles 0 (partition_blocks 8 21) 21 \<and>
   set (map snd (partition_blocks 8 21)) \<subseteq> set (halving 8)"
  using partition_blocks_exact[of 8 21] by simp

lemma blocks_from_noninc:
  "sorted_wrt (\<lambda>a b. a \<ge> b) (map snd (blocks_from T E pos)) \<and>
   (\<forall>x \<in> set (blocks_from T E pos). snd x \<le> T)"
proof (induction T E pos rule: blocks_from.induct)
  case (1 block_size E pos)
  show ?case
  proof (cases "0 < block_size")
    case False
    then show ?thesis by simp
  next
    case pos: True
    show ?thesis
    proof (cases "E - pos \<ge> block_size")
      case True
      with 1 pos show ?thesis by (subst (1 2) blocks_from.simps) auto
    next
      case False
      have "block_size div 2 \<le> block_size" using pos by simp
      with 1 pos False show ?thesis by (subst (1 2) blocks_from.simps) fastforce
    qed
  qed
qed

lemma blocks_from_pow2_tail:
  "block_size = 2 ^ n \<Longrightarrow> E - pos < 2 * block_size \<Longrightarrow>
   sorted_wrt (\<lambda>a b. a > b) (map snd (blocks_from block_size E pos)) \<and>
   (\<forall>x \<in> set (blocks_from block_size E pos). snd x \<le> block_size) \<and>
   (E - pos < block_size \<longrightarrow> (\<forall>x \<in> set (blocks_from block_size E pos). snd x < block_size))"
proof (induction block_size E pos arbitrary: n rule: blocks_from.induct)
  case (1 block_size E pos)
  have pos: "0 < block_size" using "1.prems" by simp
  show ?case
  proof (cases "E - pos \<ge> block_size")
    case True
    have small: "E - (pos + block_size) < block_size" using "1.prems" by simp
    have small2: "E - (pos + block_size) < 2 * block_size" using small pos by simp
    from "1.IH"(1)[OF pos True "1.prems"(1) small2] small
    have ih: "sorted_wrt (\<lambda>a b. a > b) (map snd (blocks_from block_size E (pos + block_size)))"
      "\<forall>x \<in> set (blocks_from block_size E (pos + block_size)). snd x < block_size"
      by auto
    have eq: "blocks_from block_size E pos =
        (pos, block_size) # blocks_from block_size E (pos + block_size)"
      using pos True by (subst blocks_from.simps) simp
    show ?thesis unfolding eq using ih True by auto
  next
    case False
    have eq: "blocks_from block_size E pos = blocks_from (block_size div 2) E pos"
      using pos False by (subst blocks_from.simps) simp
    show ?thesis
    proof (cases n)
      case 0
      then have "block_size div 2 = 0" using "1.prems" by simp
      then show ?thesis unfolding eq by simp
    next
      case (Suc m)
      then have h: "block_size div 2 = 2 ^ m" "2 * (block_size div 2) = block_size"
        using "1.prems" by simp_all
      have "E - pos < 2 * (block_size div 2)" using False h by simp
      from "1.IH"(2)[OF pos False h(1) this] h pos
      show ?thesis unfolding eq using False by fastforce
    qed
  qed
qed

lemma blocks_from_pow2_filter:
  "T = 2 ^ n \<Longrightarrow>
   sorted_wrt (\<lambda>a b. a > b) (filter (\<lambda>b. b \<noteq> T) (map snd (blocks_from T E pos)))"
proof (induction T E pos rule: blocks_from.induct)
  case (1 block_size E pos)
  have pos: "0 < block_size" using "1.prems" by simp
  show ?case
  proof (cases "E - pos \<ge> block_size")
    case True
    have eq: "blocks_from block_size E pos =
        (pos, block_size) # blocks_from block_size E (pos + block_size)"
      using pos True by (subst blocks_from.simps) simp
    show ?thesis unfolding eq using "1.IH"(1)[OF pos True "1.prems"] by simp
  next
    case False
    then have lt: "E - pos < block_size" by simp
    then have "E - pos < 2 * block_size" using pos by simp
    from blocks_from_pow2_tail[OF "1.prems" this] lt
    have s: "sorted_wrt (\<lambda>a b. a > b) (map snd (blocks_from block_size E pos))"
      and l: "\<forall>x \<in> set (blocks_from block_size E pos). snd x < block_size"
      by auto
    from l have "filter (\<lambda>b. b \<noteq> block_size) (map snd (blocks_from block_size E pos))
        = map snd (blocks_from block_size E pos)"
      by (auto intro!: filter_True)
    with s show ?thesis by simp
  qed
qed

text \<open>
  C8, as the spec states it: for every \<open>E \<ge> 1\<close> and \<open>T \<ge> 1\<close> the block sizes are strictly
  decreasing, no size occurring twice.  The loop consumes blocks of one size for as long as
  they fit, so an extent of two full tiles already repeats a size: \<open>T = 4\<close>, \<open>E = 8\<close> gives
  the blocks \<open>4, 4\<close>.
\<close>

theorem partition_blocks_strict_counterexample:
  "(1::int) \<le> 8 \<and> (1::int) \<le> 4 \<and>
   map snd (partition_blocks 4 8) = [4, 4] \<and>
   \<not> sorted_wrt (\<lambda>a b. a > b) (map snd (partition_blocks 4 8)) \<and>
   \<not> distinct (map snd (partition_blocks 4 8))"
  by code_simp

text \<open>
  C8, amended.  For every \<open>E \<ge> 1\<close> and \<open>T \<ge> 1\<close> the block sizes never increase; and when
  \<open>T\<close> is a power of two, only the full tile size \<open>T\<close> can repeat: with the blocks of size
  \<open>T\<close> left out, the sizes are strictly decreasing.
\<close>

theorem partition_blocks_descending:
  assumes "T \<ge> 1" and "E \<ge> 1"
  shows "sorted_wrt (\<lambda>a b. a \<ge> b) (map snd (partition_blocks T E)) \<and>
         ((\<exists>n. T = 2 ^ n) \<longrightarrow>
            sorted_wrt (\<lambda>a b. a > b) (filter (\<lambda>b. b \<noteq> T) (map snd (partition_blocks T E))))"
  using blocks_from_noninc[of T E 0] blocks_from_pow2_filter[of T _ E 0]
  by (auto simp: partition_blocks_eq)

theorem partition_blocks_descending_witness:
  "map snd (partition_blocks 8 21) = [8, 8, 4, 1] \<and>
   sorted_wrt (\<lambda>a b. a \<ge> b) (map snd (partition_blocks 8 21)) \<and>
   sorted_wrt (\<lambda>a b. a > b) (filter (\<lambda>b. b \<noteq> 8) (map snd (partition_blocks 8 21)))"
proof -
  have p: "\<exists>n. (8::int) = 2 ^ n" by (rule exI[of _ 3]) simp
  have "map snd (partition_blocks 8 21) = [8, 8, 4, 1]" by code_simp
  then show ?thesis using partition_blocks_descending[of 8 21] p by simp
qed

section \<open>The entry point: return value and degenerate inputs\<close>

text \<open>
  C2.  A call of \<open>CNAME\<close> with \<open>bm = 0\<close>, \<open>bn = 0\<close>, \<open>bk = 0\<close> or \<open>alpha == ZERO\<close> returns 0
  and leaves the memory as it was, whatever \<open>A\<close> and \<open>B\<close> hold.  The zero test is the
  comparison \<open>is_ZERO\<close> of the scalar type, whatever it is (for a floating-point type it
  holds of both zeros), and the scalar type is any type with \<open>0\<close>, \<open>+\<close> and \<open>*\<close>, no law
  assumed of them: no scalar operation is evaluated at all, so special values in \<open>A\<close>, \<open>B\<close>
  or \<open>C\<close> play no role.
\<close>

theorem CNAME_degenerate_noop:
  fixes alpha :: "'a::{zero,plus,times}"
  assumes "bm = 0 \<or> bn = 0 \<or> bk = 0 \<or> is_ZERO alpha"
  shows "CNAME is_ZERO cfg bm bn bk alpha ba bb C ldc s = (0, s)"
  using assms by (simp add: CNAME_def CNAME_with_def)

text \<open>
  Three runs: exact arithmetic with \<open>alpha = 0\<close>; the negative zero for \<open>alpha\<close> over a
  memory whose \<open>A\<close> and \<open>B\<close> are all NaN; and \<open>bk = 0\<close> with a NaN for \<open>alpha\<close>.
\<close>

theorem CNAME_degenerate_noop_witness:
  "CNAME (\<lambda>a. a = 0) sgemm_config 8 4 3 (0::int) 0 0 0 8 demo_memory = (0, demo_memory) \<and>
   CNAME is_ZERO_special sgemm_config 8 4 3 NZero 0 0 0 8 special_memory = (0, special_memory) \<and>
   CNAME is_ZERO_special dgemm_config 8 4 0 NaN 0 0 0 8 special_memory = (0, special_memory)"
proof -
  have z: "is_ZERO_special NZero" by (simp add: is_ZERO_special_def)
  show ?thesis
    using CNAME_degenerate_noop[of 8 4 3 "\<lambda>a. a = 0" "0::int" sgemm_config 0 0 0 8 demo_memory]
          CNAME_degenerate_noop[of 8 4 3 is_ZERO_special NZero sgemm_config 0 0 0 8 special_memory]
          CNAME_degenerate_noop[of 8 4 0 is_ZERO_special NaN dgemm_config 0 0 0 8 special_memory]
          z
    by simp
qed

text \<open>
  C7.  \<open>CNAME\<close> returns on every input (the model is a total function whose loops have
  termination proofs), and the value it returns is 0 on both paths.
\<close>

theorem CNAME_returns_zero:
  fixes alpha :: "'a::{zero,plus,times}"
  shows "fst (CNAME is_ZERO cfg bm bn bk alpha ba bb C ldc s) = 0"
  by (simp add: CNAME_def CNAME_with_def)

theorem CNAME_returns_zero_witness:
  "fst (CNAME (\<lambda>a. a = 0) sgemm_config 5 3 2 (1::int) 0 0 0 5 demo_memory) = 0 \<and>
   fst (CNAME (\<lambda>a. a = 0) sgemm_config 0 3 2 (1::int) 0 0 0 5 demo_memory) = 0"
  using CNAME_returns_zero[of "\<lambda>a. a = 0" sgemm_config 5 3 2 "1::int" 0 0 0 5 demo_memory]
        CNAME_returns_zero[of "\<lambda>a. a = 0" sgemm_config 0 3 2 "1::int" 0 0 0 5 demo_memory]
  by simp

lemma blocks_from_empty_extent: "E - pos \<le> 0 \<Longrightarrow> blocks_from T E pos = []"
proof (induction T E pos rule: blocks_from.induct)
  case (1 block_size E pos)
  then show ?case by (subst blocks_from.simps) simp
qed

section \<open>The effect of one kernel call\<close>

lemma loop_j:
  "fold (\<lambda>j F. F((i, j) := h j (F (i, j)))) [0..<n] F =
   (\<lambda>z. if fst z = i \<and> snd z < n then h (snd z) (F z) else F z)"
  by (induction n) (auto simp: fun_eq_iff)

lemma loop_ij:
  "fold (\<lambda>i. fold (\<lambda>j F. F((i, j) := h i j (F (i, j)))) [0..<n]) [0..<m] F =
   (\<lambda>z. if fst z < m \<and> snd z < n then h (fst z) (snd z) (F z) else F z)"
proof (induction m)
  case 0
  show ?case by simp
next
  case (Suc m)
  have "fold (\<lambda>i. fold (\<lambda>j F. F((i, j) := h i j (F (i, j)))) [0..<n]) [0..<Suc m] F
      = fold (\<lambda>j F. F((m, j) := h m j (F (m, j)))) [0..<n]
          (fold (\<lambda>i. fold (\<lambda>j F. F((i, j) := h i j (F (i, j)))) [0..<n]) [0..<m] F)"
    by simp
  also have "\<dots> = (\<lambda>z. if fst z < Suc m \<and> snd z < n then h (fst z) (snd z) (F z) else F z)"
    unfolding Suc loop_j by (auto simp: fun_eq_iff)
  finally show ?case .
qed

lemma map2_same: "map2 g (map f1 xs) (map f2 xs) = map (\<lambda>x. g (f1 x) (f2 x)) xs"
  by (induction xs) simp_all

lemma loop_kij:
  "fold (\<lambda>k. fold (\<lambda>i. fold (\<lambda>j F. F((i, j) := h k i j (F (i, j)))) [0..<n]) [0..<m]) ks F =
   (\<lambda>z. if fst z < m \<and> snd z < n then fold (\<lambda>k. h k (fst z) (snd z)) ks (F z) else F z)"
proof (induction ks arbitrary: F)
  case Nil
  show ?case by (auto simp: fun_eq_iff)
next
  case (Cons k ks)
  let ?G = "fold (\<lambda>i. fold (\<lambda>j F. F((i, j) := h k i j (F (i, j)))) [0..<n]) [0..<m] F"
  have G: "?G = (\<lambda>z. if fst z < m \<and> snd z < n then h k (fst z) (snd z) (F z) else F z)"
    by (rule loop_ij)
  have "fold (\<lambda>k. fold (\<lambda>i. fold (\<lambda>j F. F((i, j) := h k i j (F (i, j)))) [0..<n]) [0..<m])
          (k # ks) F
      = (\<lambda>z. if fst z < m \<and> snd z < n then fold (\<lambda>k. h k (fst z) (snd z)) ks (?G z) else ?G z)"
    unfolding fold_simps by (rule Cons)
  also have "\<dots> = (\<lambda>z. if fst z < m \<and> snd z < n
                        then fold (\<lambda>k. h k (fst z) (snd z)) (k # ks) (F z) else F z)"
    unfolding G by (auto simp: fun_eq_iff)
  finally show ?case .
qed

lemma vec_accumulate:
  fixes Am :: "int \<Rightarrow> 'a::semiring_0"
  shows "fold (\<lambda>k v. vec_add v (vec_mul_scalar (vec_load cfg Am (p k)) (b k))) [0..<K]
           (vec_splats cfg 0)
         = map (\<lambda>l. \<Sum>kk<K. mem_load cfg Am (p kk + int l) * b kk) [0..<VLEN_FLOATS cfg]"
proof (induction K)
  case 0
  show ?case by (simp add: vec_splats_def map_replicate_const)
next
  case (Suc K)
  show ?case
    unfolding upt_Suc_append[OF le0] fold_append comp_def fold_simps Suc
    by (simp add: vec_add_def vec_mul_scalar_def vec_load_def map2_same comp_def)
qed

lemma stream_loop:
  fixes Am Bm :: "int \<Rightarrow> 'a::semiring_0"
  shows "fold (\<lambda>k. fold (\<lambda>i Caux.
                      let Ak = vec_load cfg Am (A + int i * int (VLEN_FLOATS cfg) + int k * int ROWS)
                      in fold (\<lambda>j Caux. Caux((i, j) :=
                                 vec_add (Caux (i, j))
                                   (vec_mul_scalar Ak (Bm (B + int j + int k * int COLS)))))
                           [0..<COLS] Caux)
                    [0..<mv]) [0..<K]
          (fold (\<lambda>i. fold (\<lambda>j Caux. Caux((i, j) := vec_splats cfg 0)) [0..<COLS]) [0..<mv] (\<lambda>_. []))
   = (\<lambda>z. if fst z < mv \<and> snd z < COLS
            then map (\<lambda>l. \<Sum>kk<K. mem_load cfg Am (A + int (fst z) * int (VLEN_FLOATS cfg) + int kk * int ROWS + int l)
                                    * Bm (B + int (snd z) + int kk * int COLS)) [0..<VLEN_FLOATS cfg]
            else [])"
proof -
  have init: "fold (\<lambda>i. fold (\<lambda>j Caux. Caux((i, j) := vec_splats cfg (0::'a))) [0..<COLS]) [0..<mv] (\<lambda>_. [])
        = (\<lambda>z. if fst z < mv \<and> snd z < COLS then vec_splats cfg 0 else [])"
    by (rule loop_ij[of "\<lambda>i j v. vec_splats cfg (0::'a)" COLS mv "\<lambda>_. []"])
  show ?thesis
    unfolding Let_def init
    unfolding loop_kij[of "\<lambda>k i j v. vec_add v (vec_mul_scalar
         (vec_load cfg Am (A + int i * int (VLEN_FLOATS cfg) + int k * int ROWS))
         (Bm (B + int j + int k * int COLS)))" COLS mv]
    by (simp add: fun_eq_iff vec_accumulate)
qed

lemma adds_fold:
  fixes d :: "'b \<Rightarrow> int \<Rightarrow> 'a::comm_monoid_add"
  assumes "\<And>a. a \<in> set xs \<Longrightarrow> adds (f a) (d a)"
  shows "adds (fold f xs) (\<lambda>x. \<Sum>a\<leftarrow>xs. d a x)"
  using assms
proof (induction xs)
  case Nil
  show ?case by (simp add: adds_def)
next
  case (Cons a xs)
  have a: "adds (f a) (d a)" and r: "adds (fold f xs) (\<lambda>x. \<Sum>a\<leftarrow>xs. d a x)"
    using Cons by simp_all
  show ?case
    unfolding adds_def
  proof
    fix s
    have "fold f (a # xs) s = fold f xs (f a s)" by simp
    also have "\<dots> = (f a s)\<lparr>memC := \<lambda>x. memC (f a s) x + (\<Sum>a\<leftarrow>xs. d a x)\<rparr>"
      using r by (simp add: adds_def)
    also have "f a s = s\<lparr>memC := \<lambda>x. memC s x + d a x\<rparr>"
      using a by (simp add: adds_def)
    finally show "fold f (a # xs) s = s\<lparr>memC := \<lambda>x. memC s x + (\<Sum>a\<leftarrow>a # xs. d a x)\<rparr>"
      by (simp add: add.assoc)
  qed
qed

lemma adds_scalar:
  fixes v :: "'a::comm_monoid_add"
  shows "adds (\<lambda>s. s\<lparr>memC := (memC s)(p := memC s p + v)\<rparr>) (\<lambda>x. if x = p then v else 0)"
  unfolding adds_def
proof
  fix s :: "'a memory"
  have "(memC s)(p := memC s p + v) = (\<lambda>x. memC s x + (if x = p then v else 0))"
    by (auto simp: fun_eq_iff)
  then show "s\<lparr>memC := (memC s)(p := memC s p + v)\<rparr> = s\<lparr>memC := \<lambda>x. memC s x + (if x = p then v else 0)\<rparr>"
    by simp
qed

lemma address_space_large: "address_space cfg \<ge> 2 ^ 61"
  by (simp add: address_space_def sizeof_FLOAT_def)

lemma VLEN_FLOATS_le: "VLEN_FLOATS cfg \<le> 4"
  by (simp add: VLEN_FLOATS_def sizeof_FLOAT_def)

lemma address_eq_iff:
  "address cfg p = address cfg q \<longleftrightarrow> address_space cfg dvd p - q"
  unfolding address_def by (rule mod_eq_dvd_iff)

lemma address_near_inj:
  assumes "address cfg p = address cfg q" and "\<bar>p - q\<bar> < address_space cfg"
  shows "p = q"
proof -
  have "address_space cfg dvd p - q"
    using assms(1) by (simp add: address_eq_iff)
  then have "p - q = 0"
    using assms(2) by (meson dvd_abs_iff zdvd_not_zless zero_less_abs_iff)
  then show ?thesis by simp
qed

lemma lane_address_inj:
  assumes "l < VLEN_FLOATS cfg" and "l' < VLEN_FLOATS cfg"
      and "address cfg (p + int l) = address cfg (p + int l')"
  shows "l = l'"
proof -
  have "\<bar>(p + int l) - (p + int l')\<bar> < address_space cfg"
    using assms(1,2) VLEN_FLOATS_le[of cfg] address_space_large[of cfg] by simp
  from address_near_inj[OF assms(3) this] show ?thesis by simp
qed

lemma store_loop:
  fixes w :: "'a::comm_monoid_add list"
  assumes "n \<le> VLEN_FLOATS cfg"
      and "\<And>l. l < n \<Longrightarrow> v ! l = mem (address cfg (p + int l)) + w ! l"
  shows "fold (\<lambda>l m. mem_store cfg (p + int l) (v ! l) m) [0..<n] mem x =
         mem x + (\<Sum>l\<leftarrow>[0..<n]. if x = address cfg (p + int l) then w ! l else 0)"
  using assms
proof (induction n)
  case 0
  show ?case by simp
next
  case (Suc n)
  have IH: "fold (\<lambda>l m. mem_store cfg (p + int l) (v ! l) m) [0..<n] mem x =
         mem x + (\<Sum>l\<leftarrow>[0..<n]. if x = address cfg (p + int l) then w ! l else 0)"
    using Suc by simp
  have step: "fold (\<lambda>l m. mem_store cfg (p + int l) (v ! l) m) [0..<Suc n] mem x =
         (if x = address cfg (p + int n) then v ! n
          else fold (\<lambda>l m. mem_store cfg (p + int l) (v ! l) m) [0..<n] mem x)"
    by (simp add: mem_store_def)
  show ?case
  proof (cases "x = address cfg (p + int n)")
    case True
    have "x \<noteq> address cfg (p + int l)" if "l < n" for l
      using lane_address_inj[of l cfg n p] that Suc.prems(1) True by auto
    then have "(\<Sum>l\<leftarrow>[0..<n]. if x = address cfg (p + int l) then w ! l else 0)
               = (\<Sum>l\<leftarrow>[0..<n]. 0)"
      by (intro arg_cong[where f = sum_list] map_cong) auto
    then have "(\<Sum>l\<leftarrow>[0..<n]. if x = address cfg (p + int l) then w ! l else 0) = 0"
      by simp
    then show ?thesis
      unfolding step using True Suc.prems(2)[of n] by simp
  next
    case False
    then show ?thesis unfolding step IH by simp
  qed
qed

lemma adds_vector:
  fixes w :: "'a::comm_monoid_add list"
  assumes "length w = VLEN_FLOATS cfg"
  shows "adds (\<lambda>s. s\<lparr>memC := vec_store cfg p (vec_add (vec_load cfg (memC s) p) w) (memC s)\<rparr>)
              (\<lambda>x. \<Sum>l\<leftarrow>[0..<VLEN_FLOATS cfg]. if x = address cfg (p + int l) then w ! l else 0)"
  unfolding adds_def
proof
  fix s :: "'a memory"
  have "vec_store cfg p (vec_add (vec_load cfg (memC s) p) w) (memC s) x
      = memC s x + (\<Sum>l\<leftarrow>[0..<VLEN_FLOATS cfg]. if x = address cfg (p + int l) then w ! l else 0)"
    for x
    unfolding vec_store_def
    by (rule store_loop) (use assms in \<open>simp_all add: vec_add_def vec_load_def mem_load_def\<close>)
  then show "s\<lparr>memC := vec_store cfg p (vec_add (vec_load cfg (memC s) p) w) (memC s)\<rparr>
      = s\<lparr>memC := \<lambda>x. memC s x + (\<Sum>l\<leftarrow>[0..<VLEN_FLOATS cfg]. if x = address cfg (p + int l) then w ! l else 0)\<rparr>"
    by (simp add: fun_eq_iff)
qed

lemma tile_dot_sum:
  "tile_dot Am Bm A B m n k r c = (\<Sum>kk<nat k. Am (A + r + int kk * m) * Bm (B + c + int kk * n))"
  unfolding tile_dot_def by (simp add: interv_sum_list_conv_sum_set_nat atLeast0LessThan)

lemma sum_list_group:
  fixes f :: "nat \<Rightarrow> 'a::comm_monoid_add"
  shows "(\<Sum>i\<leftarrow>[0..<m]. \<Sum>l\<leftarrow>[0..<v]. f (i * v + l)) = (\<Sum>r<m * v. f r)"
proof (induction m)
  case 0
  show ?case by simp
next
  case (Suc m)
  have "(\<Sum>l\<leftarrow>[0..<v]. f (m * v + l)) = (\<Sum>r = m * v..<m * v + v. f r)"
  proof -
    have "(\<Sum>l\<leftarrow>[0..<v]. f (m * v + l)) = (\<Sum>l<v. f (m * v + l))"
      by (simp add: interv_sum_list_conv_sum_set_nat atLeast0LessThan)
    also have "\<dots> = (\<Sum>r = m * v..<m * v + v. f r)"
      using sum.shift_bounds_nat_ivl[of f 0 "m * v" v]
      by (simp add: atLeast0LessThan add.commute)
    finally show ?thesis .
  qed
  moreover have "(\<Sum>r<m * v + v. f r) = (\<Sum>r<m * v. f r) + (\<Sum>r = m * v..<m * v + v. f r)"
    using sum.atLeastLessThan_concat[of 0 "m * v" "m * v + v" f]
    by (simp add: atLeast0LessThan)
  ultimately show ?case using Suc by (simp add: add.commute)
qed

lemma VECTOR_BLOCK_effect:
  fixes alpha :: "'a::semiring_0"
  assumes dvd: "VLEN_FLOATS cfg dvd ROWS"
  shows "VECTOR_BLOCK cfg ROWS COLS A bk B C ldc alpha s =
         s\<lparr>memC := \<lambda>x. memC s x + tile_delta cfg (mem_load cfg (memA s)) (mem_load cfg (memB s)) alpha A B C ldc ROWS COLS bk x\<rparr>"
proof -
  let ?v = "VLEN_FLOATS cfg"
  let ?mv = "ROWS div ?v"
  let ?dot = "\<lambda>r c. \<Sum>kk<nat bk. mem_load cfg (memA s) (A + int r + int kk * int ROWS)
                                  * mem_load cfg (memB s) (B + int c + int kk * int COLS)"
  let ?Caux = "\<lambda>z. if fst z < ?mv \<and> snd z < COLS
                    then map (\<lambda>l. ?dot (fst z * ?v + l) (snd z)) [0..<?v] else []"
  let ?rmw = "\<lambda>j i s. s\<lparr>memC := vec_store cfg (C + int i * int ?v + int j * ldc)
                      (vec_add (vec_load cfg (memC s) (C + int i * int ?v + int j * ldc))
                         (scalar_mul_vec alpha (?Caux (i, j))))
                      (memC s)\<rparr>"
  have caux: "fold (\<lambda>k. fold (\<lambda>i Caux.
                      fold (\<lambda>j Caux. Caux((i, j) :=
                                 vec_add (Caux (i, j))
                                   (vec_mul_scalar (vec_load cfg (memA s)
                                 (A + int i * int ?v + int k * int ROWS)) (mem_load cfg (memB s) (B + int j + int k * int COLS)))))
                           [0..<COLS] Caux)
                    [0..<?mv]) [0..<nat bk]
          (fold (\<lambda>i. fold (\<lambda>j Caux. Caux((i, j) := vec_splats cfg 0)) [0..<COLS]) [0..<?mv] (\<lambda>_. []))
        = ?Caux"
    using stream_loop[of cfg "memA s" A ROWS "mem_load cfg (memB s)" B COLS ?mv "nat bk"]
    by (simp add: Let_def fun_eq_iff add.assoc add.commute add.left_commute)
  have run: "VECTOR_BLOCK cfg ROWS COLS A bk B C ldc alpha s
             = fold (\<lambda>j. fold (?rmw j) [0..<?mv]) [0..<COLS] s"
    unfolding VECTOR_BLOCK_def Let_def caux ..
  have one: "adds (?rmw j i)
      (\<lambda>x. \<Sum>l\<leftarrow>[0..<?v]. if x = address cfg (C + int (i * ?v + l) + int j * ldc)
                             then alpha * ?dot (i * ?v + l) j else 0)"
    if "i < ?mv" "j < COLS" for i j
  proof -
    have len: "length (scalar_mul_vec alpha (?Caux (i, j))) = ?v"
      using that by (simp add: scalar_mul_vec_def)
    have "(\<Sum>l\<leftarrow>[0..<?v]. if x = address cfg (C + int i * int ?v + int j * ldc + int l)
                            then scalar_mul_vec alpha (?Caux (i, j)) ! l else 0)
        = (\<Sum>l\<leftarrow>[0..<?v]. if x = address cfg (C + int (i * ?v + l) + int j * ldc)
                             then alpha * ?dot (i * ?v + l) j else 0)" for x
    proof -
      have eq: "C + int i * int ?v + int j * ldc + int l = C + int (i * ?v + l) + int j * ldc" for l
        by simp
      show ?thesis
        unfolding eq using that
        by (intro arg_cong[where f = sum_list] map_cong) (auto simp: scalar_mul_vec_def)
    qed
    with adds_vector[OF len, of "C + int i * int ?v + int j * ldc"] show ?thesis
      by simp
  qed
  have col: "adds (fold (?rmw j) [0..<?mv])
      (\<lambda>x. \<Sum>i\<leftarrow>[0..<?mv]. \<Sum>l\<leftarrow>[0..<?v]. if x = address cfg (C + int (i * ?v + l) + int j * ldc)
                             then alpha * ?dot (i * ?v + l) j else 0)"
    if "j < COLS" for j
    by (rule adds_fold) (use one that in auto)
  have col': "adds (fold (?rmw j) [0..<?mv])
      (\<lambda>x. \<Sum>r<ROWS. if x = address cfg (C + int r + int j * ldc) then alpha * ?dot r j else 0)"
    if "j < COLS" for j
  proof -
    have mv: "?mv * ?v = ROWS" using dvd by simp
    have "(\<Sum>i\<leftarrow>[0..<?mv]. \<Sum>l\<leftarrow>[0..<?v]. if x = address cfg (C + int (i * ?v + l) + int j * ldc)
                             then alpha * ?dot (i * ?v + l) j else 0)
        = (\<Sum>r<ROWS. if x = address cfg (C + int r + int j * ldc) then alpha * ?dot r j else 0)" for x
      using sum_list_group[of "\<lambda>r. if x = address cfg (C + int r + int j * ldc) then alpha * ?dot r j else 0" ?v ?mv]
      unfolding mv .
    with col[OF that] show ?thesis by (simp only:)
  qed
  have "adds (fold (\<lambda>j. fold (?rmw j) [0..<?mv]) [0..<COLS])
      (\<lambda>x. \<Sum>j\<leftarrow>[0..<COLS]. \<Sum>r<ROWS. if x = address cfg (C + int r + int j * ldc) then alpha * ?dot r j else 0)"
    by (rule adds_fold) (use col' in auto)
  then have "fold (\<lambda>j. fold (?rmw j) [0..<?mv]) [0..<COLS] s
      = s\<lparr>memC := \<lambda>x. memC s x +
            (\<Sum>j<COLS. \<Sum>r<ROWS. if x = address cfg (C + int r + int j * ldc) then alpha * ?dot r j else 0)\<rparr>"
    by (simp add: adds_def interv_sum_list_conv_sum_set_nat atLeast0LessThan)
  also have "(\<lambda>x. memC s x +
            (\<Sum>j<COLS. \<Sum>r<ROWS. if x = address cfg (C + int r + int j * ldc) then alpha * ?dot r j else 0))
      = (\<lambda>x. memC s x + tile_delta cfg (mem_load cfg (memA s)) (mem_load cfg (memB s)) alpha A B C ldc ROWS COLS bk x)"
    unfolding tile_delta_def tile_dot_sum
    by (subst sum.swap) simp
  finally show ?thesis using run by simp
qed

lemma fold_add_sum_list:
  fixes v0 :: "'a::comm_monoid_add"
  shows "fold (\<lambda>kk v. v + t kk) ks v0 = v0 + (\<Sum>kk\<leftarrow>ks. t kk)"
  by (induction ks arbitrary: v0) (simp_all add: add.assoc)

lemma GEBP_block_generic_effect:
  fixes alpha :: "'a::semiring_0"
  assumes k: "k \<ge> 1" and m: "m \<ge> 0" and n: "n \<ge> 0"
  shows "GEBP_block_generic cfg m n A k B C ldc alpha s =
         s\<lparr>memC := \<lambda>x. memC s x + tile_delta cfg (mem_load cfg (memA s)) (mem_load cfg (memB s)) alpha A B C ldc (nat m) (nat n) k x\<rparr>"
proof -
  let ?t = "\<lambda>i j kk. mem_load cfg (memA s) (A + int i + int kk * m) *
                      mem_load cfg (memB s) (B + int j + int kk * n)"
  let ?Caux = "\<lambda>z. if fst z < nat m \<and> snd z < nat n
                    then tile_dot (mem_load cfg (memA s)) (mem_load cfg (memB s)) A B m n k (int (fst z)) (int (snd z)) else 0"
  let ?rmw = "\<lambda>i j s. s\<lparr>memC := mem_store cfg (C + int i + int j * ldc)
                   (mem_load cfg (memC s) (C + int i + int j * ldc) + alpha * ?Caux (i, j))
                   (memC s)\<rparr>"
  have upt: "[0..<nat k] = 0 # [1..<nat k]"
    using k by (simp add: upt_conv_Cons)
  have mm: "int (nat m) = m" "int (nat n) = n"
    using m n by simp_all
  have dot: "?t i j 0 + (\<Sum>kk\<leftarrow>[1..<nat k]. ?t i j kk)
             = tile_dot (mem_load cfg (memA s)) (mem_load cfg (memB s)) A B m n k (int i) (int j)" for i j
    unfolding tile_dot_def upt by simp
  have caux: "fold (\<lambda>kk. fold (\<lambda>i. fold (\<lambda>j Caux. Caux((i, j) :=
                      Caux (i, j) + mem_load cfg (memA s) (A + int i + int kk * m) *
                                    mem_load cfg (memB s) (B + int j + int kk * n)))
                      [0..<nat n]) [0..<nat m]) [1..<nat k]
                 (fold (\<lambda>i. fold (\<lambda>j Caux. Caux((i, j) :=
                      mem_load cfg (memA s) (A + int i) * mem_load cfg (memB s) (B + int j)))
                      [0..<nat n])
                    [0..<nat m] (\<lambda>_. 0))
              = ?Caux"
    unfolding loop_ij[of "\<lambda>i j v. mem_load cfg (memA s) (A + int i) * mem_load cfg (memB s) (B + int j)"]
              loop_kij[of "\<lambda>kk i j v. v + ?t i j kk"]
    using dot by (auto simp: fun_eq_iff fold_add_sum_list)
  have run: "GEBP_block_generic cfg m n A k B C ldc alpha s
             = fold (\<lambda>i. fold (?rmw i) [0..<nat n]) [0..<nat m] s"
    unfolding GEBP_block_generic_def Let_def caux ..
  have one: "adds (?rmw i j)
      (\<lambda>x. if x = address cfg (C + int i + int j * ldc)
            then alpha * tile_dot (mem_load cfg (memA s)) (mem_load cfg (memB s)) A B m n k (int i) (int j) else 0)"
    if "i < nat m" "j < nat n" for i j
    using adds_scalar[of "address cfg (C + int i + int j * ldc)"
            "alpha * tile_dot (mem_load cfg (memA s)) (mem_load cfg (memB s)) A B m n k (int i) (int j)"] that
    by (simp add: mem_store_def mem_load_def)
  have row: "adds (fold (?rmw i) [0..<nat n])
      (\<lambda>x. \<Sum>j\<leftarrow>[0..<nat n]. if x = address cfg (C + int i + int j * ldc)
            then alpha * tile_dot (mem_load cfg (memA s)) (mem_load cfg (memB s)) A B m n k (int i) (int j) else 0)"
    if "i < nat m" for i
    by (rule adds_fold) (use one that in auto)
  have "adds (fold (\<lambda>i. fold (?rmw i) [0..<nat n]) [0..<nat m])
      (\<lambda>x. \<Sum>i\<leftarrow>[0..<nat m]. \<Sum>j\<leftarrow>[0..<nat n]. if x = address cfg (C + int i + int j * ldc)
            then alpha * tile_dot (mem_load cfg (memA s)) (mem_load cfg (memB s)) A B m n k (int i) (int j) else 0)"
    by (rule adds_fold) (use row in auto)
  then have "fold (\<lambda>i. fold (?rmw i) [0..<nat n]) [0..<nat m] s
      = s\<lparr>memC := \<lambda>x. memC s x + tile_delta cfg (mem_load cfg (memA s)) (mem_load cfg (memB s)) alpha A B C ldc (nat m) (nat n) k x\<rparr>"
    unfolding tile_delta_def mm
    by (simp add: adds_def interv_sum_list_conv_sum_set_nat atLeast0LessThan)
  then show ?thesis using run by simp
qed
subsection \<open>What one kernel call leaves alone\<close>

lemma writes_only_fold:
  assumes "\<And>a. a \<in> set xs \<Longrightarrow> writes_only W (f a)"
  shows "writes_only W (fold f xs)"
  using assms
proof (induction xs)
  case Nil
  show ?case by (simp add: writes_only_def)
next
  case (Cons a xs)
  then have a: "writes_only W (f a)" and r: "writes_only W (fold f xs)" by simp_all
  show ?case
    unfolding writes_only_def
  proof (intro allI)
    fix s
    from a have "memA (f a s) = memA s \<and> memB (f a s) = memB s \<and>
        (\<forall>x. x \<notin> W \<longrightarrow> memC (f a s) x = memC s x)"
      by (simp add: writes_only_def)
    moreover from r have "memA (fold f xs (f a s)) = memA (f a s) \<and>
        memB (fold f xs (f a s)) = memB (f a s) \<and>
        (\<forall>x. x \<notin> W \<longrightarrow> memC (fold f xs (f a s)) x = memC (f a s) x)"
      by (simp add: writes_only_def)
    ultimately show "memA (fold f (a # xs) s) = memA s \<and> memB (fold f (a # xs) s) = memB s \<and>
        (\<forall>x. x \<notin> W \<longrightarrow> memC (fold f (a # xs) s) x = memC s x)"
      by simp
  qed
qed

lemma writes_only_mono: "writes_only W t \<Longrightarrow> W \<subseteq> W' \<Longrightarrow> writes_only W' t"
  unfolding writes_only_def by blast

lemma C_slice_iff:
  "x \<in> C_slice cfg C ldc bm bn \<longleftrightarrow>
   (\<exists>i j. 0 \<le> i \<and> i < bm \<and> 0 \<le> j \<and> j < bn \<and> x = address cfg (C + i + j * ldc))"
proof
  assume "x \<in> C_slice cfg C ldc bm bn"
  then obtain i j where "i \<in> {0..<bm}" "j \<in> {0..<bn}" "x = address cfg (C + i + j * ldc)"
    unfolding C_slice_def by auto
  then show "\<exists>i j. 0 \<le> i \<and> i < bm \<and> 0 \<le> j \<and> j < bn \<and> x = address cfg (C + i + j * ldc)"
    by auto
next
  assume "\<exists>i j. 0 \<le> i \<and> i < bm \<and> 0 \<le> j \<and> j < bn \<and> x = address cfg (C + i + j * ldc)"
  then obtain i j where "(i, j) \<in> {0..<bm} \<times> {0..<bn}" "x = (case (i, j) of (i, j) \<Rightarrow> address cfg (C + i + j * ldc))"
    by auto
  then show "x \<in> C_slice cfg C ldc bm bn"
    unfolding C_slice_def by (rule image_eqI[rotated])
qed

lemma C_slice_row_block:
  assumes "0 \<le> p" and "p + b \<le> bm"
  shows "C_slice cfg (C + p) ldc b n \<subseteq> C_slice cfg C ldc bm n"
proof
  fix x assume "x \<in> C_slice cfg (C + p) ldc b n"
  then obtain i j where "0 \<le> i" "i < b" "0 \<le> j" "j < n" "x = address cfg (C + p + i + j * ldc)"
    unfolding C_slice_iff by blast
  then have "0 \<le> p + i \<and> p + i < bm \<and> 0 \<le> j \<and> j < n \<and> x = address cfg (C + (p + i) + j * ldc)"
    using assms by (simp add: add.assoc)
  then show "x \<in> C_slice cfg C ldc bm n" unfolding C_slice_iff by blast
qed

lemma C_slice_column_block:
  assumes "0 \<le> q" and "q + b \<le> bn"
  shows "C_slice cfg (C + q * ldc) ldc bm b \<subseteq> C_slice cfg C ldc bm bn"
proof
  fix x assume "x \<in> C_slice cfg (C + q * ldc) ldc bm b"
  then obtain i j where "0 \<le> i" "i < bm" "0 \<le> j" "j < b" "x = address cfg (C + q * ldc + i + j * ldc)"
    unfolding C_slice_iff by blast
  then have "0 \<le> i \<and> i < bm \<and> 0 \<le> q + j \<and> q + j < bn \<and> x = address cfg (C + i + (q + j) * ldc)"
    using assms by (simp add: algebra_simps)
  then show "x \<in> C_slice cfg C ldc bm bn" unfolding C_slice_iff by blast
qed

lemma vector_lane_in_slice:
  assumes "i < ROWS div v" and "j < COLS" and "l < v"
  shows "address cfg (C + int i * int v + int j * ldc + int l)
         \<in> C_slice cfg C ldc (int ROWS) (int COLS)"
proof -
  have "Suc i * v \<le> (ROWS div v) * v" using assms(1) by (intro mult_le_mono1) simp
  also have "\<dots> \<le> ROWS" by simp
  finally have "int i * int v + int v \<le> int ROWS"
    by (metis mult_Suc of_nat_add of_nat_le_iff of_nat_mult add.commute)
  then have "0 \<le> int i * int v + int l \<and> int i * int v + int l < int ROWS"
    using assms(3) by simp
  moreover have "address cfg (C + int i * int v + int j * ldc + int l)
                 = address cfg (C + (int i * int v + int l) + int j * ldc)"
    by (rule arg_cong[where f = "address cfg"]) simp
  ultimately have "0 \<le> int i * int v + int l \<and> int i * int v + int l < int ROWS \<and>
      0 \<le> int j \<and> int j < int COLS \<and>
      address cfg (C + int i * int v + int j * ldc + int l)
        = address cfg (C + (int i * int v + int l) + int j * ldc)"
    using assms(2) by simp
  then show ?thesis
    unfolding C_slice_iff by blast
qed

lemma store_loop_frame:
  assumes "\<And>l. l < n \<Longrightarrow> x \<noteq> address cfg (p + int l)"
  shows "fold (\<lambda>l m. mem_store cfg (p + int l) (v ! l) m) [0..<n] mem x = mem x"
  using assms by (induction n) (simp_all add: mem_store_def)

lemma VECTOR_BLOCK_frame:
  "writes_only (C_slice cfg C ldc (int ROWS) (int COLS))
     (VECTOR_BLOCK cfg ROWS COLS A bk B C ldc alpha)"
proof -
  let ?W = "C_slice cfg C ldc (int ROWS) (int COLS)"
  let ?v = "VLEN_FLOATS cfg"
  have one: "writes_only ?W (\<lambda>s. s\<lparr>memC := vec_store cfg (C + int i * int ?v + int j * ldc)
                      (vec_add (vec_load cfg (memC s) (C + int i * int ?v + int j * ldc))
                         (scalar_mul_vec alpha (Caux (i, j))))
                      (memC s)\<rparr>)"
    if "i < ROWS div ?v" "j < COLS" for i j and Caux :: "nat \<times> nat \<Rightarrow> 'a list"
  proof -
    have "vec_store cfg (C + int i * int ?v + int j * ldc) w mem x = mem x"
      if "x \<notin> ?W" for w :: "'a list" and mem x
      unfolding vec_store_def
      by (rule store_loop_frame) (use vector_lane_in_slice[OF \<open>i < ROWS div ?v\<close> \<open>j < COLS\<close>] that in blast)
    then show ?thesis unfolding writes_only_def by simp
  qed
  have all: "writes_only ?W (fold (\<lambda>j. fold (\<lambda>i s.
                 s\<lparr>memC := vec_store cfg (C + int i * int ?v + int j * ldc)
                      (vec_add (vec_load cfg (memC s) (C + int i * int ?v + int j * ldc))
                         (scalar_mul_vec alpha (Caux (i, j))))
                      (memC s)\<rparr>)
               [0..<ROWS div ?v]) [0..<COLS])" for Caux :: "nat \<times> nat \<Rightarrow> 'a list"
    by (intro writes_only_fold one) simp_all
  show ?thesis
    unfolding writes_only_def
  proof (intro allI)
    fix s
    show "memA (VECTOR_BLOCK cfg ROWS COLS A bk B C ldc alpha s) = memA s \<and>
          memB (VECTOR_BLOCK cfg ROWS COLS A bk B C ldc alpha s) = memB s \<and>
          (\<forall>x. x \<notin> ?W \<longrightarrow> memC (VECTOR_BLOCK cfg ROWS COLS A bk B C ldc alpha s) x = memC s x)"
      unfolding VECTOR_BLOCK_def Let_def
      using all[unfolded writes_only_def, rule_format] by blast
  qed
qed

lemma GEBP_block_generic_frame:
  "writes_only (C_slice cfg C ldc m n) (GEBP_block_generic cfg m n A k B C ldc alpha)"
proof -
  let ?W = "C_slice cfg C ldc m n"
  have one: "writes_only ?W (\<lambda>s. s\<lparr>memC := mem_store cfg (C + int i + int j * ldc)
                   (mem_load cfg (memC s) (C + int i + int j * ldc) + alpha * Caux (i, j))
                   (memC s)\<rparr>)"
    if "i < nat m" "j < nat n" for i j and Caux :: "nat \<times> nat \<Rightarrow> 'a"
  proof -
    have "address cfg (C + int i + int j * ldc) \<in> ?W"
      unfolding C_slice_iff
      by (rule exI[of _ "int i"], rule exI[of _ "int j"]) (use that in linarith)
    then show ?thesis unfolding writes_only_def mem_store_def by auto
  qed
  have all: "writes_only ?W (fold (\<lambda>i. fold (\<lambda>j s. s\<lparr>memC := mem_store cfg (C + int i + int j * ldc)
                   (mem_load cfg (memC s) (C + int i + int j * ldc) + alpha * Caux (i, j))
                   (memC s)\<rparr>) [0..<nat n])
           [0..<nat m])" for Caux :: "nat \<times> nat \<Rightarrow> 'a"
    by (intro writes_only_fold one) simp_all
  show ?thesis
    unfolding writes_only_def
  proof (intro allI)
    fix s
    show "memA (GEBP_block_generic cfg m n A k B C ldc alpha s) = memA s \<and>
          memB (GEBP_block_generic cfg m n A k B C ldc alpha s) = memB s \<and>
          (\<forall>x. x \<notin> ?W \<longrightarrow> memC (GEBP_block_generic cfg m n A k B C ldc alpha s) x = memC s x)"
      unfolding GEBP_block_generic_def Let_def
      using all[unfolded writes_only_def, rule_format] by blast
  qed
qed

lemma GEBP_block_frame:
  "writes_only (C_slice cfg (C0 + first_row) ldc m n)
     (GEBP_block cfg m n first_row A0 k B C0 ldc alpha)"
proof -
  show ?thesis
    unfolding writes_only_def GEBP_block_def Let_def
      GEBP_block_8_4_def GEBP_block_8_2_def GEBP_block_8_1_def GEBP_block_4_4_def
      GEBP_block_4_2_def GEBP_block_4_1_def GEBP_block_2_4_def GEBP_block_2_2_def
    using VECTOR_BLOCK_frame[of cfg "C0 + first_row" ldc 8 4 "A0 + first_row * k" k B alpha]
          VECTOR_BLOCK_frame[of cfg "C0 + first_row" ldc 8 2 "A0 + first_row * k" k B alpha]
          VECTOR_BLOCK_frame[of cfg "C0 + first_row" ldc 8 1 "A0 + first_row * k" k B alpha]
          VECTOR_BLOCK_frame[of cfg "C0 + first_row" ldc 4 4 "A0 + first_row * k" k B alpha]
          VECTOR_BLOCK_frame[of cfg "C0 + first_row" ldc 4 2 "A0 + first_row * k" k B alpha]
          VECTOR_BLOCK_frame[of cfg "C0 + first_row" ldc 4 1 "A0 + first_row * k" k B alpha]
          VECTOR_BLOCK_frame[of cfg "C0 + first_row" ldc 2 4 "A0 + first_row * k" k B alpha]
          VECTOR_BLOCK_frame[of cfg "C0 + first_row" ldc 2 2 "A0 + first_row * k" k B alpha]
          GEBP_block_generic_frame[of cfg "C0 + first_row" ldc m n "A0 + first_row * k" k B alpha]
    by (simp add: writes_only_def)
qed


section \<open>The micro-kernels\<close>

lemma VLEN_FLOATS_cases:
  "VLEN_FLOATS cfg = (if is_double cfg then 2 else 4)"
  by (simp add: VLEN_FLOATS_def sizeof_FLOAT_def)

lemma micro_kernel_SomeD:
  assumes "micro_kernel cfg ROWS COLS = Some kern"
  shows "kern = VECTOR_BLOCK cfg ROWS COLS \<and> VLEN_FLOATS cfg dvd ROWS \<and> 0 < ROWS \<and> 0 < COLS"
  using assms
  by (auto simp: micro_kernel_def VLEN_FLOATS_cases GEBP_block_8_4_def GEBP_block_8_2_def
        GEBP_block_8_1_def GEBP_block_4_4_def GEBP_block_4_2_def GEBP_block_4_1_def
        GEBP_block_2_4_def GEBP_block_2_2_def split: if_splits)

text \<open>
  C4.  For every shape \<open>(ROWS, COLS)\<close> that has a micro-kernel instance (8x4, 8x2, 8x1,
  4x4, 4x2, 4x1, and 2x4, 2x2 under \<open>DOUBLE\<close>), every \<open>k \<ge> 1\<close>, \<open>alpha\<close>, \<open>ldc\<close>, pointers
  and memory, the instance leaves the memory exactly as the generic triple loop at the end
  of \<open>GEBP_block\<close> does when run on the same arguments.  The arithmetic is exact: the
  scalars form a semiring.
\<close>

theorem micro_kernel_refines_generic:
  fixes alpha :: "'a::semiring_0"
  assumes "micro_kernel cfg ROWS COLS = Some kern" and "k \<ge> 1"
  shows "kern A k B C ldc alpha s =
         GEBP_block_generic cfg (int ROWS) (int COLS) A k B C ldc alpha s"
proof -
  from micro_kernel_SomeD[OF assms(1)]
  have kern: "kern = VECTOR_BLOCK cfg ROWS COLS" and dvd: "VLEN_FLOATS cfg dvd ROWS"
    by simp_all
  show ?thesis
    unfolding kern VECTOR_BLOCK_effect[OF dvd]
    using GEBP_block_generic_effect[OF assms(2), of "int ROWS" "int COLS" cfg A B C ldc alpha s]
    by simp
qed

theorem micro_kernel_refines_generic_witness:
  "micro_kernel dgemm_config 2 2 =
     Some (GEBP_block_2_2 dgemm_config :: _ \<Rightarrow> _ \<Rightarrow> _ \<Rightarrow> _ \<Rightarrow> _ \<Rightarrow> int \<Rightarrow> _) \<and>
   GEBP_block_2_2 dgemm_config 0 2 0 0 2 3 demo_memory =
     GEBP_block_generic dgemm_config (int 2) (int 2) 0 2 0 0 2 3 demo_memory \<and>
   memC (GEBP_block_2_2 dgemm_config 0 2 0 0 2 3 demo_memory) 3 = 402"
proof -
  have k: "micro_kernel dgemm_config 2 2 =
      Some (GEBP_block_2_2 dgemm_config :: _ \<Rightarrow> _ \<Rightarrow> _ \<Rightarrow> _ \<Rightarrow> _ \<Rightarrow> int \<Rightarrow> _)"
    by (simp add: micro_kernel_def dgemm_config_def)
  have v: "memC (GEBP_block_2_2 dgemm_config 0 2 0 0 2 3 demo_memory) 3 = 402"
    by code_simp
  have "(1::int) \<le> 2" by simp
  from micro_kernel_refines_generic[OF k this, of 0 0 0 2 3 demo_memory] k v
  show ?thesis by (intro conjI)
qed

lemma panel_entry_unique:
  fixes i i' j j' :: int
  assumes ldc: "bm \<le> ldc" and fits: "(bn - 1) * ldc + bm \<le> address_space cfg"
    and i: "0 \<le> i" "i < bm" and j: "0 \<le> j" "j < bn"
    and i': "0 \<le> i'" "i' < bm" and j': "0 \<le> j'" "j' < bn"
    and eq: "address cfg (C + i' + j' * ldc) = address cfg (C + i + j * ldc)"
  shows "i' = i \<and> j' = j"
proof -
  have pos: "0 < ldc" using ldc i by linarith
  have range: "0 \<le> a + b * ldc \<and> a + b * ldc < address_space cfg"
    if "0 \<le> a" "a < bm" "0 \<le> b" "b < bn" for a b
  proof -
    have "0 \<le> b * ldc" using that pos by simp
    moreover have "b * ldc \<le> (bn - 1) * ldc"
      using that pos by (intro mult_right_mono) simp_all
    ultimately show ?thesis using that fits by linarith
  qed
  have "\<bar>(C + i' + j' * ldc) - (C + i + j * ldc)\<bar> < address_space cfg"
    using range[OF i j] range[OF i' j'] by linarith
  from address_near_inj[OF eq this]
  have e: "i' - i = (j - j') * ldc" by (simp add: algebra_simps)
  have "j' = j"
  proof (rule ccontr)
    assume "j' \<noteq> j"
    then have "\<bar>j - j'\<bar> \<ge> 1" by linarith
    then have "\<bar>(j - j') * ldc\<bar> \<ge> \<bar>ldc\<bar>"
      unfolding abs_mult using mult_right_mono[of 1 "\<bar>j - j'\<bar>" "\<bar>ldc\<bar>"] by simp
    moreover have "\<bar>i' - i\<bar> < bm" using i i' by linarith
    ultimately show False using e ldc by linarith
  qed
  with e show ?thesis by simp
qed






section \<open>The row-block kernel\<close>

lemma GEBP_block_dispatch:
  assumes "m \<ge> 0" and "n \<ge> 0"
  shows "GEBP_block cfg m n first_row A0 k B C0 ldc alpha s =
         (case micro_kernel cfg (nat m) (nat n) of
            Some kern \<Rightarrow> kern (A0 + first_row * k) k B (C0 + first_row) ldc alpha s
          | None \<Rightarrow> GEBP_block_generic cfg m n (A0 + first_row * k) k B (C0 + first_row) ldc alpha s)"
proof -
  have eqs: "nat m = 8 \<longleftrightarrow> m = 8" "nat m = 4 \<longleftrightarrow> m = 4" "nat m = 2 \<longleftrightarrow> m = 2"
            "nat n = 4 \<longleftrightarrow> n = 4" "nat n = 2 \<longleftrightarrow> n = 2" "nat n = 1 \<longleftrightarrow> n = 1"
    using assms by linarith+
  show ?thesis
    unfolding GEBP_block_def micro_kernel_def Let_def eqs by simp
qed

lemma GEBP_block_effect:
  fixes alpha :: "'a::semiring_0"
  assumes k: "k \<ge> 1" and m: "m \<ge> 0" and n: "n \<ge> 0"
  shows "GEBP_block cfg m n first_row A0 k B C0 ldc alpha s =
         s\<lparr>memC := \<lambda>x. memC s x +
            tile_delta cfg (mem_load cfg (memA s)) (mem_load cfg (memB s)) alpha
              (A0 + first_row * k) B (C0 + first_row) ldc
              (nat m) (nat n) k x\<rparr>"
proof (cases "micro_kernel cfg (nat m) (nat n) :: (int \<Rightarrow> int \<Rightarrow> int \<Rightarrow> int \<Rightarrow> int \<Rightarrow> 'a \<Rightarrow> 'a memory \<Rightarrow> 'a memory) option")
  case None
  then show ?thesis
    unfolding GEBP_block_dispatch[OF m n]
    by (simp add: GEBP_block_generic_effect[OF k m n])
next
  case (Some kern)
  from micro_kernel_SomeD[OF Some]
  have kern: "kern = VECTOR_BLOCK cfg (nat m) (nat n)" and dvd: "VLEN_FLOATS cfg dvd nat m"
    by simp_all
  show ?thesis
    unfolding GEBP_block_dispatch[OF m n] Some
    by (simp add: kern VECTOR_BLOCK_effect[OF dvd])
qed

section \<open>The whole call\<close>

lemma fold_tile_updates:
  fixes d :: "'b \<Rightarrow> (int \<Rightarrow> 'a) \<Rightarrow> (int \<Rightarrow> 'a) \<Rightarrow> int \<Rightarrow> 'a::comm_monoid_add"
  assumes "\<And>a s. a \<in> set xs \<Longrightarrow> f a s = s\<lparr>memC := \<lambda>x. memC s x + d a (memA s) (memB s) x\<rparr>"
  shows "fold f xs s = s\<lparr>memC := \<lambda>x. memC s x + (\<Sum>a\<leftarrow>xs. d a (memA s) (memB s) x)\<rparr>"
  using assms
proof (induction xs arbitrary: s)
  case Nil
  show ?case by simp
next
  case (Cons a xs)
  let ?s1 = "s\<lparr>memC := \<lambda>x. memC s x + d a (memA s) (memB s) x\<rparr>"
  have "fold f (a # xs) s = fold f xs ?s1"
    using Cons.prems[of a s] by simp
  also have "\<dots> = ?s1\<lparr>memC := \<lambda>x. memC ?s1 x + (\<Sum>a\<leftarrow>xs. d a (memA ?s1) (memB ?s1) x)\<rparr>"
    by (rule Cons.IH) (simp add: Cons.prems)
  finally show ?case by (simp add: add.assoc)
qed

lemma blocks_from_bounds:
  "(p, b) \<in> set (blocks_from T E pos) \<Longrightarrow> pos \<le> p \<and> 0 < b \<and> p + b \<le> E"
proof (induction T E pos rule: blocks_from.induct)
  case (1 block_size E pos)
  from "1.prems" have pos: "0 < block_size"
    by (cases "0 < block_size") simp_all
  show ?case
  proof (cases "E - pos \<ge> block_size")
    case True
    with "1.prems" pos have "(p, b) = (pos, block_size) \<or>
        (p, b) \<in> set (blocks_from block_size E (pos + block_size))"
      by (subst (asm) blocks_from.simps) simp
    with "1.IH"(1)[OF pos True] pos True show ?thesis by auto
  next
    case False
    with "1.prems" pos have "(p, b) \<in> set (blocks_from (block_size div 2) E pos)"
      by (subst (asm) blocks_from.simps) simp
    with "1.IH"(2)[OF pos False] show ?thesis by auto
  qed
qed

lemma packed_block_of_block:
  "(p, b) \<in> set (blocks_from T E pos) \<Longrightarrow> p \<le> i \<Longrightarrow> i < p + b \<Longrightarrow>
   packed_block T E pos i = (p, b)"
proof (induction T E pos rule: blocks_from.induct)
  case (1 T E pos)
  from "1.prems" have T: "0 < T"
    by (cases "0 < T") simp_all
  show ?case
  proof (cases "E - pos \<ge> T")
    case True
    have full: "(E - pos) div T \<ge> 1"
      using zdiv_mono1[of T "E - pos" T] True T by simp
    from "1.prems" T True have mem: "(p, b) = (pos, T) \<or>
        (p, b) \<in> set (blocks_from T E (pos + T))"
      by (subst (asm) blocks_from.simps) simp
    then show ?thesis
    proof
      assume "(p, b) = (pos, T)"
      then have pb: "p = pos" "b = T" by simp_all
      define w where "w = ((E - pos) div T) * T"
      have "1 * T \<le> ((E - pos) div T) * T"
        using full T by (intro mult_right_mono) simp_all
      then have "T \<le> w" by (simp add: w_def)
      then have "i < pos + w"
        using "1.prems" pb by linarith
      then have "i < pos + ((E - pos) div T) * T" by (simp add: w_def)
      moreover have "(i - pos) div T = 0"
        using "1.prems" pb T by simp
      ultimately show ?thesis
        using T pb by (subst packed_block.simps) simp
    next
      assume in_tl: "(p, b) \<in> set (blocks_from T E (pos + T))"
      from blocks_from_bounds[OF this] "1.prems" have i: "pos + T \<le> i" by simp
      have d1: "(E - (pos + T)) div T = (E - pos) div T - 1"
        using T div_add_self2[of T "E - pos - T"] by (simp add: algebra_simps)
      have d2: "(i - (pos + T)) div T = (i - pos) div T - 1"
        using T div_add_self2[of T "i - pos - T"] by (simp add: algebra_simps)
      have e1: "pos + T + ((E - (pos + T)) div T) * T = pos + ((E - pos) div T) * T"
        unfolding d1 by (simp add: algebra_simps)
      have e2: "pos + T + ((i - (pos + T)) div T) * T = pos + ((i - pos) div T) * T"
        unfolding d2 by (simp add: algebra_simps)
      have "packed_block T E pos i = packed_block T E (pos + T) i"
        using T by (subst packed_block.simps, subst (2) packed_block.simps) (simp add: e1 e2)
      with "1.IH"(1)[OF T True in_tl "1.prems"(2,3)] show ?thesis by simp
    qed
  next
    case False
    show ?thesis
    proof (cases "E - pos \<le> 0")
      case True
      with "1.prems" show ?thesis by (simp add: blocks_from_empty_extent)
    next
      case nonempty: False
      with False T have full: "(E - pos) div T = 0" by simp
      from "1.prems" T False have mem: "(p, b) \<in> set (blocks_from (T div 2) E pos)"
        by (subst (asm) blocks_from.simps) simp
      from blocks_from_bounds[OF mem] "1.prems" have "\<not> i < pos" by simp
      then have "packed_block T E pos i = packed_block (T div 2) E pos i"
        using T full by (subst packed_block.simps) simp
      with "1.IH"(2)[OF T False mem "1.prems"(2,3)] show ?thesis by simp
    qed
  qed
qed

lemma tiles_le: "tiles lo bl hi \<Longrightarrow> lo \<le> hi"
  by (induction lo bl hi rule: tiles.induct) auto

lemma sum_over_blocks:
  fixes G :: "int \<Rightarrow> 'a::comm_monoid_add"
  assumes "tiles lo bl hi"
  shows "(\<Sum>(p, b)\<leftarrow>bl. \<Sum>i\<in>{p..<p + b}. G i) = (\<Sum>i\<in>{lo..<hi}. G i)"
  using assms
proof (induction lo bl hi rule: tiles.induct)
  case (1 lo hi)
  then show ?case by simp
next
  case (2 lo p b bl hi)
  then have p: "p = lo" and b: "b > 0" and t: "tiles (lo + b) bl hi" by simp_all
  from tiles_le[OF t] have le: "lo + b \<le> hi" .
  have split: "{lo..<hi} = {lo..<lo + b} \<union> {lo + b..<hi}" "{lo..<lo + b} \<inter> {lo + b..<hi} = {}"
    using b le by auto
  have "(\<Sum>i\<in>{lo..<hi}. G i) = (\<Sum>i\<in>{lo..<lo + b}. G i) + (\<Sum>i\<in>{lo + b..<hi}. G i)"
    unfolding split(1) by (rule sum.union_disjoint) (simp_all add: split(2))
  with "2.IH"[OF t] p show ?case by simp
qed

lemma sum_nat_shift:
  fixes f :: "int \<Rightarrow> 'a::comm_monoid_add"
  shows "(\<Sum>r<nat b. f (p + int r)) = (\<Sum>i\<in>{p..<p + b}. f i)"
  by (rule sum.reindex_bij_witness[where i = "\<lambda>i. nat (i - p)" and j = "\<lambda>r. p + int r"]) auto

lemma sum_nat_int:
  fixes f :: "int \<Rightarrow> 'a::comm_monoid_add"
  shows "(\<Sum>r<nat b. f (int r)) = (\<Sum>i\<in>{0..<b}. f i)"
  using sum_nat_shift[of "f" 0 b] by simp

lemma tile_delta_in_block:
  fixes alpha :: "'a::semiring_0"
  assumes blk: "(p, b) \<in> set (blocks_from Tm bm 0)" and n: "n \<ge> 0"
  shows "tile_delta cfg Am Bm alpha (A + p * bk) B (C + p) ldc (nat b) (nat n) bk x =
         (\<Sum>i\<in>{p..<p + b}. \<Sum>c\<in>{0..<n}. if x = address cfg (C + i + c * ldc)
             then alpha * (\<Sum>kk\<leftarrow>[0..<nat bk]. Am (A + packed_offset Tm bm bk i (int kk)) *
                                               Bm (B + c + int kk * n))
             else 0)"
proof -
  from blocks_from_bounds[OF blk] have b: "0 < b" by simp
  then have bb: "int (nat b) = b" by simp
  have nn: "int (nat n) = n" using n by simp
  let ?f = "\<lambda>i. \<Sum>c\<in>{0..<n}. if x = address cfg (C + i + c * ldc)
             then alpha * tile_dot Am Bm (A + p * bk) B b n bk (i - p) c else 0"
  have "tile_delta cfg Am Bm alpha (A + p * bk) B (C + p) ldc (nat b) (nat n) bk x
      = (\<Sum>r<nat b. ?f (p + int r))"
    unfolding tile_delta_def bb nn
    by (intro sum.cong refl, subst sum_nat_int[symmetric]) (simp add: add.assoc cong: if_cong)
  also have "\<dots> = (\<Sum>i\<in>{p..<p + b}. ?f i)"
    by (rule sum_nat_shift)
  also have "\<dots> = (\<Sum>i\<in>{p..<p + b}. \<Sum>c\<in>{0..<n}. if x = address cfg (C + i + c * ldc)
             then alpha * (\<Sum>kk\<leftarrow>[0..<nat bk]. Am (A + packed_offset Tm bm bk i (int kk)) *
                                               Bm (B + c + int kk * n))
             else 0)"
  proof (intro sum.cong refl)
    fix i c
    assume "i \<in> {p..<p + b}"
    then have "packed_block Tm bm 0 i = (p, b)"
      using packed_block_of_block[OF blk, of i] by simp
    then have off: "A + packed_offset Tm bm bk i (int kk) = A + p * bk + (i - p) + int kk * b" for kk
      by (simp add: packed_offset_def)
    show "(if x = address cfg (C + i + c * ldc)
           then alpha * tile_dot Am Bm (A + p * bk) B b n bk (i - p) c else 0)
        = (if x = address cfg (C + i + c * ldc)
           then alpha * (\<Sum>kk\<leftarrow>[0..<nat bk]. Am (A + packed_offset Tm bm bk i (int kk)) *
                                               Bm (B + c + int kk * n))
           else 0)"
      unfolding tile_dot_def off ..
  qed
  finally show ?thesis .
qed

lemma sum_list_blocks_cong:
  fixes g h :: "int \<Rightarrow> int \<Rightarrow> 'a::comm_monoid_add"
  assumes "\<And>p b. (p, b) \<in> set bl \<Longrightarrow> g p b = h p b"
  shows "(\<Sum>(p, b)\<leftarrow>bl. g p b) = (\<Sum>(p, b)\<leftarrow>bl. h p b)"
  using assms by (intro arg_cong[where f = sum_list] map_cong) auto

lemma GEBP_column_block_effect:
  fixes alpha :: "'a::semiring_0"
  assumes bk: "bk \<ge> 1" and n: "num_cols \<ge> 0" and T: "unroll_m cfg \<ge> 1" and bm: "bm \<ge> 0"
  shows "GEBP_column_block cfg num_cols first_col A bk B bm C ldc alpha s =
         s\<lparr>memC := \<lambda>x. memC s x +
            column_delta cfg (mem_load cfg (memA s)) (mem_load cfg (memB s)) alpha (unroll_m cfg) A (B + first_col * bk)
              (C + first_col * ldc) ldc bm num_cols bk x\<rparr>"
proof -
  let ?bl = "blocks_from (unroll_m cfg) bm 0"
  let ?B = "B + first_col * bk" and ?C = "C + first_col * ldc"
  have step: "(case a of (p, b) \<Rightarrow> GEBP_block cfg b num_cols p A bk ?B ?C ldc alpha) t =
      t\<lparr>memC := \<lambda>x. memC t x +
        (case a of (p, b) \<Rightarrow> \<lambda>Am Bm. tile_delta cfg (mem_load cfg Am) (mem_load cfg Bm) alpha (A + p * bk) ?B (?C + p) ldc
            (nat b) (nat num_cols) bk) (memA t) (memB t) x\<rparr>"
    if "a \<in> set ?bl" for a t
  proof -
    obtain p b where a: "a = (p, b)" by (cases a)
    from that a have "(p, b) \<in> set ?bl" by simp
    from blocks_from_bounds[OF this] have "b \<ge> 0" by simp
    from GEBP_block_effect[OF bk this n] show ?thesis by (simp add: a)
  qed
  have "GEBP_column_block cfg num_cols first_col A bk B bm C ldc alpha s =
        fold (\<lambda>(p, b). GEBP_block cfg b num_cols p A bk ?B ?C ldc alpha) ?bl s"
    by (simp add: GEBP_column_block_def GEBP_column_block_with_def partition_loop_fold)
  also have "\<dots> = s\<lparr>memC := \<lambda>x. memC s x +
        (\<Sum>a\<leftarrow>?bl. (case a of (p, b) \<Rightarrow> \<lambda>Am Bm. tile_delta cfg (mem_load cfg Am) (mem_load cfg Bm) alpha (A + p * bk) ?B (?C + p) ldc
            (nat b) (nat num_cols) bk) (memA s) (memB s) x)\<rparr>"
    by (rule fold_tile_updates) (rule step)
  also have "(\<lambda>x. memC s x +
        (\<Sum>a\<leftarrow>?bl. (case a of (p, b) \<Rightarrow> \<lambda>Am Bm. tile_delta cfg (mem_load cfg Am) (mem_load cfg Bm) alpha (A + p * bk) ?B (?C + p) ldc
            (nat b) (nat num_cols) bk) (memA s) (memB s) x))
      = (\<lambda>x. memC s x + column_delta cfg (mem_load cfg (memA s)) (mem_load cfg (memB s)) alpha (unroll_m cfg) A ?B ?C ldc bm num_cols bk x)"
  proof
    fix x
    let ?G = "\<lambda>i. \<Sum>c\<in>{0..<num_cols}. if x = address cfg (?C + i + c * ldc)
             then alpha * (\<Sum>kk\<leftarrow>[0..<nat bk].
                    mem_load cfg (memA s) (A + packed_offset (unroll_m cfg) bm bk i (int kk)) *
                    mem_load cfg (memB s) (?B + c + int kk * num_cols))
             else 0"
    have "(\<Sum>a\<leftarrow>?bl. (case a of (p, b) \<Rightarrow> \<lambda>Am Bm. tile_delta cfg (mem_load cfg Am) (mem_load cfg Bm) alpha (A + p * bk) ?B (?C + p) ldc
            (nat b) (nat num_cols) bk) (memA s) (memB s) x)
        = (\<Sum>(p, b)\<leftarrow>?bl. tile_delta cfg (mem_load cfg (memA s)) (mem_load cfg (memB s)) alpha (A + p * bk) ?B (?C + p) ldc
            (nat b) (nat num_cols) bk x)"
      by (intro arg_cong[where f = sum_list] map_cong) auto
    also have "\<dots> = (\<Sum>(p, b)\<leftarrow>?bl. \<Sum>i\<in>{p..<p + b}. ?G i)"
      by (rule sum_list_blocks_cong) (rule tile_delta_in_block[OF _ n])
    also have "\<dots> = (\<Sum>i\<in>{0..<bm}. ?G i)"
      by (rule sum_over_blocks) (use blocks_from_tiles[OF T, of 0 bm] bm in simp)
    finally show "memC s x +
        (\<Sum>a\<leftarrow>?bl. (case a of (p, b) \<Rightarrow> \<lambda>Am Bm. tile_delta cfg (mem_load cfg Am) (mem_load cfg Bm) alpha (A + p * bk) ?B (?C + p) ldc
            (nat b) (nat num_cols) bk) (memA s) (memB s) x)
      = memC s x + column_delta cfg (mem_load cfg (memA s)) (mem_load cfg (memB s)) alpha (unroll_m cfg) A ?B ?C ldc bm num_cols bk x"
      by (simp add: column_delta_def)
  qed
  finally show ?thesis .
qed

lemma sum_int_shift:
  fixes f :: "int \<Rightarrow> 'a::comm_monoid_add"
  shows "(\<Sum>c\<in>{0..<b}. f (p + c)) = (\<Sum>j\<in>{p..<p + b}. f j)"
  by (rule sum.reindex_bij_witness[where i = "\<lambda>j. j - p" and j = "\<lambda>c. p + c"]) auto

lemma column_delta_in_block:
  fixes alpha :: "'a::semiring_0"
  assumes blk: "(q, b) \<in> set (blocks_from Tn bn 0)"
  shows "column_delta cfg Am Bm alpha Tm ba (bb + q * bk) (C + q * ldc) ldc bm b bk x =
         (\<Sum>j\<in>{q..<q + b}. \<Sum>i\<in>{0..<bm}. if x = address cfg (C + i + j * ldc)
             then alpha * packed_dot Am Bm Tm Tn ba bb bm bn bk i j else 0)"
proof -
  let ?f = "\<lambda>j. \<Sum>i\<in>{0..<bm}. if x = address cfg (C + i + j * ldc)
             then alpha * (\<Sum>kk\<leftarrow>[0..<nat bk]. Am (ba + packed_offset Tm bm bk i (int kk)) *
                                               Bm (bb + q * bk + (j - q) + int kk * b))
             else 0"
  have "column_delta cfg Am Bm alpha Tm ba (bb + q * bk) (C + q * ldc) ldc bm b bk x
      = (\<Sum>c\<in>{0..<b}. \<Sum>i\<in>{0..<bm}. if x = address cfg (C + q * ldc + i + c * ldc)
             then alpha * (\<Sum>kk\<leftarrow>[0..<nat bk]. Am (ba + packed_offset Tm bm bk i (int kk)) *
                                               Bm (bb + q * bk + c + int kk * b))
             else 0)"
    unfolding column_delta_def by (rule sum.swap)
  also have "\<dots> = (\<Sum>c\<in>{0..<b}. ?f (q + c))"
    by (intro sum.cong refl) (simp add: algebra_simps cong: if_cong)
  also have "\<dots> = (\<Sum>j\<in>{q..<q + b}. ?f j)"
    by (rule sum_int_shift)
  also have "\<dots> = (\<Sum>j\<in>{q..<q + b}. \<Sum>i\<in>{0..<bm}. if x = address cfg (C + i + j * ldc)
             then alpha * packed_dot Am Bm Tm Tn ba bb bm bn bk i j else 0)"
  proof (intro sum.cong refl)
    fix j i
    assume "j \<in> {q..<q + b}"
    then have "packed_block Tn bn 0 j = (q, b)"
      using packed_block_of_block[OF blk, of j] by simp
    then have off: "bb + packed_offset Tn bn bk j (int kk) = bb + q * bk + (j - q) + int kk * b" for kk
      by (simp add: packed_offset_def)
    show "(if x = address cfg (C + i + j * ldc)
           then alpha * (\<Sum>kk\<leftarrow>[0..<nat bk]. Am (ba + packed_offset Tm bm bk i (int kk)) *
                                               Bm (bb + q * bk + (j - q) + int kk * b))
           else 0)
        = (if x = address cfg (C + i + j * ldc)
           then alpha * packed_dot Am Bm Tm Tn ba bb bm bn bk i j else 0)"
      unfolding packed_dot_def off ..
  qed
  finally show ?thesis .
qed

lemma GEBP_column_block_ext:
  "GEBP_column_block_with (GEBP_block cfg) cfg num_cols first_col A bk B bm C ldc alpha =
   GEBP_column_block cfg num_cols first_col A bk B bm C ldc alpha"
  by (rule ext) (simp add: GEBP_column_block_def)

lemma gemm_delta_alpha_zero:
  "gemm_delta cfg Am Bm (0::'a::semiring_0) Tm Tn ba bb C ldc bm bn bk x = 0"
  by (simp add: gemm_delta_def cong: if_cong)

lemma CNAME_effect:
  fixes alpha :: "'a::semiring_0"
  assumes bk: "bk \<ge> 1" and bm: "bm \<ge> 1" and bn: "bn \<ge> 1"
    and Tm: "unroll_m cfg \<ge> 1" and Tn: "unroll_n cfg \<ge> 1"
    and zero: "is_ZERO alpha \<longrightarrow> alpha = 0"
  shows "snd (CNAME is_ZERO cfg bm bn bk alpha ba bb C ldc s) =
         s\<lparr>memC := \<lambda>x. memC s x +
            gemm_delta cfg (mem_load cfg (memA s)) (mem_load cfg (memB s)) alpha (unroll_m cfg) (unroll_n cfg) ba bb C ldc bm bn bk x\<rparr>"
proof (cases "is_ZERO alpha")
  case True
  with zero have "alpha = 0" by simp
  with True show ?thesis by (simp add: CNAME_def CNAME_with_def gemm_delta_alpha_zero)
next
  case False
  let ?bl = "blocks_from (unroll_n cfg) bn 0"
  have step: "(case a of (q, b) \<Rightarrow> GEBP_column_block cfg b q ba bk bb bm C ldc alpha) t =
      t\<lparr>memC := \<lambda>x. memC t x +
        (case a of (q, b) \<Rightarrow> \<lambda>Am Bm. column_delta cfg (mem_load cfg Am) (mem_load cfg Bm) alpha (unroll_m cfg) ba (bb + q * bk)
            (C + q * ldc) ldc bm b bk) (memA t) (memB t) x\<rparr>"
    if "a \<in> set ?bl" for a t
  proof -
    obtain q b where a: "a = (q, b)" by (cases a)
    from that a have "(q, b) \<in> set ?bl" by simp
    from blocks_from_bounds[OF this] have b: "b \<ge> 0" by simp
    have "bm \<ge> 0" using bm by simp
    from GEBP_column_block_effect[OF bk b Tm this] show ?thesis by (simp add: a)
  qed
  have "snd (CNAME is_ZERO cfg bm bn bk alpha ba bb C ldc s) =
        fold (\<lambda>(q, b). GEBP_column_block cfg b q ba bk bb bm C ldc alpha) ?bl s"
    using False bk bm bn
    by (simp add: CNAME_def CNAME_with_def GEBP_column_block_ext partition_loop_fold)
  also have "\<dots> = s\<lparr>memC := \<lambda>x. memC s x +
        (\<Sum>a\<leftarrow>?bl. (case a of (q, b) \<Rightarrow> \<lambda>Am Bm. column_delta cfg (mem_load cfg Am) (mem_load cfg Bm) alpha (unroll_m cfg) ba (bb + q * bk)
            (C + q * ldc) ldc bm b bk) (memA s) (memB s) x)\<rparr>"
    by (rule fold_tile_updates) (rule step)
  also have "(\<lambda>x. memC s x +
        (\<Sum>a\<leftarrow>?bl. (case a of (q, b) \<Rightarrow> \<lambda>Am Bm. column_delta cfg (mem_load cfg Am) (mem_load cfg Bm) alpha (unroll_m cfg) ba (bb + q * bk)
            (C + q * ldc) ldc bm b bk) (memA s) (memB s) x))
      = (\<lambda>x. memC s x +
            gemm_delta cfg (mem_load cfg (memA s)) (mem_load cfg (memB s)) alpha (unroll_m cfg) (unroll_n cfg) ba bb C ldc bm bn bk x)"
  proof
    fix x
    let ?G = "\<lambda>j. \<Sum>i\<in>{0..<bm}. if x = address cfg (C + i + j * ldc)
             then alpha * packed_dot (mem_load cfg (memA s)) (mem_load cfg (memB s)) (unroll_m cfg) (unroll_n cfg) ba bb bm bn bk i j
             else 0"
    have "(\<Sum>a\<leftarrow>?bl. (case a of (q, b) \<Rightarrow> \<lambda>Am Bm. column_delta cfg (mem_load cfg Am) (mem_load cfg Bm) alpha (unroll_m cfg) ba (bb + q * bk)
            (C + q * ldc) ldc bm b bk) (memA s) (memB s) x)
        = (\<Sum>(q, b)\<leftarrow>?bl. column_delta cfg (mem_load cfg (memA s)) (mem_load cfg (memB s)) alpha (unroll_m cfg) ba (bb + q * bk)
            (C + q * ldc) ldc bm b bk x)"
      by (intro arg_cong[where f = sum_list] map_cong) auto
    also have "\<dots> = (\<Sum>(q, b)\<leftarrow>?bl. \<Sum>j\<in>{q..<q + b}. ?G j)"
      by (rule sum_list_blocks_cong) (rule column_delta_in_block)
    also have "\<dots> = (\<Sum>j\<in>{0..<bn}. ?G j)"
      by (rule sum_over_blocks) (use blocks_from_tiles[OF Tn, of 0 bn] bn in simp)
    finally show "memC s x +
        (\<Sum>a\<leftarrow>?bl. (case a of (q, b) \<Rightarrow> \<lambda>Am Bm. column_delta cfg (mem_load cfg Am) (mem_load cfg Bm) alpha (unroll_m cfg) ba (bb + q * bk)
            (C + q * ldc) ldc bm b bk) (memA s) (memB s) x)
      = memC s x +
            gemm_delta cfg (mem_load cfg (memA s)) (mem_load cfg (memB s)) alpha (unroll_m cfg) (unroll_n cfg) ba bb C ldc bm bn bk x"
      by (simp add: gemm_delta_def)
  qed
  finally show ?thesis .
qed

lemma cell_loop:
  fixes t :: "'b \<Rightarrow> 'a::comm_monoid_add"
  shows "fold (\<lambda>kk P. P(z := P z + t kk)) ks P = P(z := P z + (\<Sum>kk\<leftarrow>ks. t kk))"
  by (induction ks arbitrary: P) (simp_all add: add.assoc)

lemma naive_product_entry:
  fixes Al :: "nat \<Rightarrow> nat \<Rightarrow> 'a::semiring_0"
  shows "naive_product Al Bl m n k (i, j) =
         (if i < m \<and> j < n then \<Sum>kk\<leftarrow>[0..<k]. Al i kk * Bl kk j else 0)"
  unfolding naive_product_def cell_loop
  unfolding loop_ij[of "\<lambda>i j v. v + (\<Sum>kk\<leftarrow>[0..<k]. Al i kk * Bl kk j)"]
  by simp

lemma gemm_delta_unique:
  fixes alpha :: "'a::semiring_0"
  assumes ldc: "bm \<le> ldc" and fits: "(bn - 1) * ldc + bm \<le> address_space cfg"
    and i: "0 \<le> i" "i < bm" and j: "0 \<le> j" "j < bn"
  shows "gemm_delta cfg Am Bm alpha Tm Tn ba bb C ldc bm bn bk (address cfg (C + i + j * ldc))
         = alpha * packed_dot Am Bm Tm Tn ba bb bm bn bk i j"
proof -
  have "gemm_delta cfg Am Bm alpha Tm Tn ba bb C ldc bm bn bk (address cfg (C + i + j * ldc))
      = (\<Sum>j'\<in>{0..<bn}. \<Sum>i'\<in>{0..<bm}. if i' = i \<and> j' = j
            then alpha * packed_dot Am Bm Tm Tn ba bb bm bn bk i' j' else 0)"
    unfolding gemm_delta_def
    by (intro sum.cong refl) (use panel_entry_unique[OF ldc fits i j, of _ _ C] in auto)
  also have "\<dots> = (\<Sum>j'\<in>{0..<bn}. if j' = j then
       alpha * packed_dot Am Bm Tm Tn ba bb bm bn bk i j' else 0)"
    using i by (intro sum.cong refl) (simp add: sum.delta)
  also have "\<dots> = alpha * packed_dot Am Bm Tm Tn ba bb bm bn bk i j"
    using j by (simp add: sum.delta)
  finally show ?thesis .
qed

text \<open>
  C1.  \<open>C\<close> is a column-major panel of \<open>bm\<close> rows and \<open>bn\<close> columns with the leading
  dimension \<open>ldc \<ge> bm\<close> (lines 78-79 of the source), and the panel is an object of the
  machine: its \<open>(bn - 1) * ldc + bm\<close> elements fit in the address space.  Then for all
  \<open>bm, bn, bk \<ge> 1\<close>, unroll sizes \<open>\<ge> 1\<close>, every \<open>alpha\<close> and all contents of \<open>A\<close>, \<open>B\<close> and
  \<open>C\<close>, \<open>CNAME\<close> leaves in every entry \<open>C[i + j * ldc]\<close> with \<open>0 \<le> i < bm\<close> and
  \<open>0 \<le> j < bn\<close> its prior value plus \<open>alpha\<close> times the \<open>(i, j)\<close> entry of the product of the
  logical matrices, as the naive triple loop computes it.  The arithmetic is exact: the
  scalars form a semiring, and the test \<open>alpha == ZERO\<close> holds of no scalar but \<open>0\<close>.
\<close>

theorem CNAME_computes_product:
  fixes alpha :: "'a::semiring_0"
  assumes "unroll_m cfg \<ge> 1" and "unroll_n cfg \<ge> 1"
    and "bm \<ge> 1" and "bn \<ge> 1" and "bk \<ge> 1"
    and "is_ZERO alpha \<longrightarrow> alpha = 0"
    and "bm \<le> ldc" and "(bn - 1) * ldc + bm \<le> address_space cfg"
    and "i < nat bm" and "j < nat bn"
  shows "mem_load cfg (memC (snd (CNAME is_ZERO cfg bm bn bk alpha ba bb C ldc s)))
             (C + int i + int j * ldc) =
           mem_load cfg (memC s) (C + int i + int j * ldc) +
           alpha * naive_product (A_logical cfg s ba bm bk) (B_logical cfg s bb bn bk)
                     (nat bm) (nat bn) (nat bk) (i, j)"
proof -
  have ij: "0 \<le> int i" "int i < bm" "0 \<le> int j" "int j < bn"
    using assms by simp_all
  have "naive_product (A_logical cfg s ba bm bk) (B_logical cfg s bb bn bk)
            (nat bm) (nat bn) (nat bk) (i, j)
      = packed_dot (mem_load cfg (memA s)) (mem_load cfg (memB s)) (unroll_m cfg) (unroll_n cfg)
          ba bb bm bn bk (int i) (int j)"
    using assms by (simp add: naive_product_entry packed_dot_def A_logical_def B_logical_def)
  then show ?thesis
    unfolding CNAME_effect[where is_ZERO = is_ZERO and alpha = alpha, OF assms(5,3,4,1,2,6)]
              mem_load_def[of cfg "memC _"]
    by (simp add: gemm_delta_unique[OF assms(7,8) ij])
qed

theorem CNAME_computes_product_witness:
  "mem_load sgemm_config (memC (snd (CNAME (\<lambda>a. a = 0) sgemm_config 5 3 2 1 0 0 0 5 demo_memory)))
       (0 + int 4 + int 2 * 5) =
     mem_load sgemm_config (memC demo_memory) (0 + int 4 + int 2 * 5) +
     1 * naive_product (A_logical sgemm_config demo_memory 0 5 2)
           (B_logical sgemm_config demo_memory 0 3 2) (nat 5) (nat 3) (nat 2) (4, 2) \<and>
   mem_load sgemm_config (memC (snd (CNAME (\<lambda>a. a = 0) sgemm_config 5 3 2 1 0 0 0 5 demo_memory)))
       (0 + int 4 + int 2 * 5) = 1591"
proof -
  have v: "mem_load sgemm_config (memC demo_memory) (0 + int 4 + int 2 * 5) +
           1 * naive_product (A_logical sgemm_config demo_memory 0 5 2)
                 (B_logical sgemm_config demo_memory 0 3 2) (nat 5) (nat 3) (nat 2) (4, 2) = 1591"
    unfolding naive_product_entry by code_simp
  have h: "unroll_m sgemm_config \<ge> 1" "unroll_n sgemm_config \<ge> 1"
       "(5::int) \<ge> 1" "(3::int) \<ge> 1" "(2::int) \<ge> 1" "(1::int) = 0 \<longrightarrow> (1::int) = 0"
       "(5::int) \<le> 5" "(3 - 1) * 5 + 5 \<le> address_space sgemm_config"
       "(4::nat) < nat 5" "(2::nat) < nat 3"
    by (simp_all add: sgemm_config_def address_space_def sizeof_FLOAT_def)
  from CNAME_computes_product[of sgemm_config 5 3 2 "\<lambda>a. a = 0" "1::int" 5 4 2 0 0 0 demo_memory, OF h] v
  show ?thesis by simp
qed

section \<open>The frame of the call\<close>

lemma GEBP_column_block_frame:
  "writes_only (C_slice cfg (C + first_col * ldc) ldc bm num_cols)
     (GEBP_column_block cfg num_cols first_col A bk B bm C ldc alpha)"
proof -
  let ?C = "C + first_col * ldc"
  have "writes_only (C_slice cfg ?C ldc bm num_cols)
          (fold (\<lambda>(p, b). GEBP_block cfg b num_cols p A bk (B + first_col * bk) ?C ldc alpha)
             (blocks_from (unroll_m cfg) bm 0))"
  proof (rule writes_only_fold)
    fix a assume a: "a \<in> set (blocks_from (unroll_m cfg) bm 0)"
    obtain p b where pb: "a = (p, b)" by (cases a)
    from a pb blocks_from_bounds[of p b "unroll_m cfg" bm 0]
    have "0 \<le> p" "p + b \<le> bm" by simp_all
    from writes_only_mono[OF GEBP_block_frame C_slice_row_block[OF this]]
    show "writes_only (C_slice cfg ?C ldc bm num_cols)
            (case a of (p, b) \<Rightarrow> GEBP_block cfg b num_cols p A bk (B + first_col * bk) ?C ldc alpha)"
      by (simp add: pb)
  qed
  moreover have "GEBP_column_block cfg num_cols first_col A bk B bm C ldc alpha =
      fold (\<lambda>(p, b). GEBP_block cfg b num_cols p A bk (B + first_col * bk) ?C ldc alpha)
        (blocks_from (unroll_m cfg) bm 0)"
    by (rule ext) (simp add: GEBP_column_block_def GEBP_column_block_with_def partition_loop_fold)
  ultimately show ?thesis by simp
qed

lemma CNAME_writes_only:
  "writes_only (C_slice cfg C ldc bm bn) (\<lambda>s. snd (CNAME is_ZERO cfg bm bn bk alpha ba bb C ldc s))"
proof (cases "bm = 0 \<or> bn = 0 \<or> bk = 0 \<or> is_ZERO alpha")
  case True
  then show ?thesis by (simp add: CNAME_def CNAME_with_def writes_only_def)
next
  case False
  have "writes_only (C_slice cfg C ldc bm bn)
          (fold (\<lambda>(q, b). GEBP_column_block cfg b q ba bk bb bm C ldc alpha)
             (blocks_from (unroll_n cfg) bn 0))"
  proof (rule writes_only_fold)
    fix a assume a: "a \<in> set (blocks_from (unroll_n cfg) bn 0)"
    obtain q b where qb: "a = (q, b)" by (cases a)
    from a qb blocks_from_bounds[of q b "unroll_n cfg" bn 0]
    have "0 \<le> q" "q + b \<le> bn" by simp_all
    from writes_only_mono[OF GEBP_column_block_frame C_slice_column_block[OF this]]
    show "writes_only (C_slice cfg C ldc bm bn)
            (case a of (q, b) \<Rightarrow> GEBP_column_block cfg b q ba bk bb bm C ldc alpha)"
      by (simp add: qb)
  qed
  moreover have "(\<lambda>s. snd (CNAME is_ZERO cfg bm bn bk alpha ba bb C ldc s)) =
      fold (\<lambda>(q, b). GEBP_column_block cfg b q ba bk bb bm C ldc alpha)
        (blocks_from (unroll_n cfg) bn 0)"
    using False
    by (intro ext) (simp add: CNAME_def CNAME_with_def GEBP_column_block_ext partition_loop_fold)
  ultimately show ?thesis by simp
qed

text \<open>
  C6.  A call of \<open>CNAME\<close> changes \<open>C\<close> at most at the entries \<open>C[i + j * ldc]\<close> with
  \<open>0 \<le> i < bm\<close> and \<open>0 \<le> j < bn\<close>: every other location of \<open>C\<close>, the slack between the
  columns included, keeps its value, and \<open>A\<close> and \<open>B\<close> are as they were.  This holds for
  every input, for any scalar type with \<open>0\<close>, \<open>+\<close> and \<open>*\<close>, no law assumed, and for any
  test \<open>alpha == ZERO\<close>.
\<close>

theorem CNAME_frame:
  fixes alpha :: "'a::{zero,plus,times}"
  shows "memA (snd (CNAME is_ZERO cfg bm bn bk alpha ba bb C ldc s)) = memA s \<and>
         memB (snd (CNAME is_ZERO cfg bm bn bk alpha ba bb C ldc s)) = memB s \<and>
         (\<forall>x. x \<notin> C_slice cfg C ldc bm bn \<longrightarrow>
              memC (snd (CNAME is_ZERO cfg bm bn bk alpha ba bb C ldc s)) x = memC s x)"
  using CNAME_writes_only[of cfg C ldc bm bn is_ZERO bk alpha ba bb] unfolding writes_only_def by blast

theorem CNAME_frame_witness:
  "5 \<notin> C_slice sgemm_config 0 6 5 3 \<and>
   memC (snd (CNAME (\<lambda>a. a = 0) sgemm_config 5 3 2 (1::int) 0 0 0 6 demo_memory)) 5 = 500 \<and>
   memA (snd (CNAME (\<lambda>a. a = 0) sgemm_config 5 3 2 (1::int) 0 0 0 6 demo_memory)) = memA demo_memory \<and>
   memB (snd (CNAME (\<lambda>a. a = 0) sgemm_config 5 3 2 (1::int) 0 0 0 6 demo_memory)) = memB demo_memory"
proof -
  have out: "5 \<notin> C_slice sgemm_config 0 6 5 3" by code_simp
  have v: "memC demo_memory 5 = 500" by (simp add: demo_memory_def)
  from CNAME_frame[of "\<lambda>a. a = 0" sgemm_config 5 3 2 "1::int" 0 0 0 6 demo_memory] out v
  show ?thesis by simp
qed
section \<open>The calls of the row-block kernel\<close>

lemma fold_append_lists: "fold (\<lambda>a acc. acc @ L a) xs acc = acc @ concat (map L xs)"
  by (induction xs arbitrary: acc) simp_all

lemma fold_over_concat: "fold f (concat xss) s = fold (fold f) xss s"
  by (induction xss arbitrary: s) simp_all

lemma fold_record_call:
  "fold (\<lambda>a. record_call (m a) (n a) (r a) (A a) (k a) (B a) (C a) (l a) alpha) xs acc =
   acc @ map (\<lambda>a. \<lparr>call_m = m a, call_n = n a, call_first_row = r a, call_A = A a, call_k = k a,
                    call_B = B a, call_C = C a, call_ldc = l a\<rparr>) xs"
  by (induction xs arbitrary: acc) (simp_all add: record_call_def)

text \<open>The calls of one column block, and of the whole run, read off the two partitions.\<close>

lemma GEBP_column_block_with_fold:
  "GEBP_column_block_with blk cfg num_cols first_col A bk B bm C ldc alpha =
     fold (\<lambda>a. blk (snd a) num_cols (fst a) A bk (B + first_col * bk) (C + first_col * ldc) ldc alpha)
       (blocks_from (unroll_m cfg) bm 0)"
  by (rule ext) (simp add: GEBP_column_block_with_def partition_loop_fold case_prod_unfold)

lemma CNAME_with_fold:
  "snd (CNAME_with blk is_ZERO cfg bm bn bk alpha ba bb C ldc s) =
     (if bm = 0 \<or> bn = 0 \<or> bk = 0 \<or> is_ZERO alpha then s
      else fold (\<lambda>c. fold (\<lambda>a. blk (snd a) (snd c) (fst a) ba bk (bb + fst c * bk)
                                  (C + fst c * ldc) ldc alpha)
                         (blocks_from (unroll_m cfg) bm 0))
             (blocks_from (unroll_n cfg) bn 0) s)"
  by (simp add: CNAME_with_def partition_loop_fold case_prod_unfold GEBP_column_block_with_fold)

lemma GEBP_block_calls_eq:
  "GEBP_block_calls is_ZERO cfg bm bn bk alpha ba bb C ldc =
     (if bm = 0 \<or> bn = 0 \<or> bk = 0 \<or> is_ZERO alpha then []
      else concat (map (\<lambda>c. map (\<lambda>a. \<lparr>call_m = snd a, call_n = snd c, call_first_row = fst a,
                                        call_A = ba, call_k = bk, call_B = bb + fst c * bk,
                                        call_C = C + fst c * ldc, call_ldc = ldc\<rparr>)
                                (blocks_from (unroll_m cfg) bm 0))
                    (blocks_from (unroll_n cfg) bn 0)))"
proof -
  have inner: "(\<lambda>c. fold (\<lambda>a. record_call (snd a) (snd c) (fst a) ba bk (bb + fst c * bk)
                                  (C + fst c * ldc) ldc alpha)
                         (blocks_from (unroll_m cfg) bm 0))
      = (\<lambda>c acc. acc @ map (\<lambda>a. \<lparr>call_m = snd a, call_n = snd c, call_first_row = fst a,
                                        call_A = ba, call_k = bk, call_B = bb + fst c * bk,
                                        call_C = C + fst c * ldc, call_ldc = ldc\<rparr>)
                                (blocks_from (unroll_m cfg) bm 0))"
    by (intro ext) (rule fold_record_call)
  show ?thesis
    unfolding GEBP_block_calls_def CNAME_with_fold inner fold_append_lists by simp
qed

lemma CNAME_with_runs_calls:
  "snd (CNAME_with blk is_ZERO cfg bm bn bk alpha ba bb C ldc s) =
     fold (\<lambda>c. blk (call_m c) (call_n c) (call_first_row c) (call_A c) (call_k c) (call_B c)
                    (call_C c) (call_ldc c) alpha)
       (GEBP_block_calls is_ZERO cfg bm bn bk alpha ba bb C ldc) s"
  unfolding CNAME_with_fold GEBP_block_calls_eq
  by (simp add: fold_over_concat fold_map comp_def)





text \<open>
  C10.  With a negative row extent or a negative column extent, \<open>CNAME\<close> returns 0 and
  leaves the memory unchanged, and it calls no kernel, whatever \<open>alpha\<close> and \<open>bk\<close> are: also
  when both are nonzero, so that the guard does not return early.  Then
  \<open>bn - col >= block_size\<close> never holds for \<open>bn < 0\<close>, and for \<open>bm < 0\<close> every column block
  runs a row loop whose condition \<open>bm - row >= block_size\<close> never holds.
\<close>

theorem CNAME_negative_extent_noop:
  fixes alpha :: "'a::{zero,plus,times}"
  assumes "bm < 0 \<or> bn < 0"
  shows "CNAME is_ZERO cfg bm bn bk alpha ba bb C ldc s = (0, s) \<and>
         GEBP_block_calls is_ZERO cfg bm bn bk alpha ba bb C ldc = []"
proof -
  have calls: "GEBP_block_calls is_ZERO cfg bm bn bk alpha ba bb C ldc = []"
    using assms by (auto simp: GEBP_block_calls_eq blocks_from_empty_extent)
  have "snd (CNAME is_ZERO cfg bm bn bk alpha ba bb C ldc s) = s"
    unfolding CNAME_def CNAME_with_runs_calls calls by simp
  moreover have "fst (CNAME is_ZERO cfg bm bn bk alpha ba bb C ldc s) = 0"
    by (simp add: CNAME_def CNAME_with_def)
  ultimately show ?thesis using calls by (simp add: prod_eq_iff)
qed

text \<open>Two runs that pass the guard: \<open>alpha = 1\<close> and \<open>bk = 2\<close>.\<close>

theorem CNAME_negative_extent_noop_witness:
  "\<not> ((- 3::int) = 0 \<or> (4::int) = 0 \<or> (2::int) = 0 \<or> (1::int) = 0) \<and>
   CNAME (\<lambda>a. a = 0) sgemm_config (- 3) 4 2 (1::int) 0 0 0 8 demo_memory = (0, demo_memory) \<and>
   GEBP_block_calls (\<lambda>a. a = 0) sgemm_config (- 3) 4 2 (1::int) 0 0 0 8 = [] \<and>
   CNAME (\<lambda>a. a = 0) sgemm_config 8 (- 1) 2 (1::int) 0 0 0 8 demo_memory = (0, demo_memory) \<and>
   GEBP_block_calls (\<lambda>a. a = 0) sgemm_config 8 (- 1) 2 (1::int) 0 0 0 8 = []"
  using CNAME_negative_extent_noop[of "- 3" 4 "\<lambda>a. a = 0" sgemm_config 2 "1::int" 0 0 0 8 demo_memory]
        CNAME_negative_extent_noop[of 8 "- 1" "\<lambda>a. a = 0" sgemm_config 2 "1::int" 0 0 0 8 demo_memory]
  by simp

end
